theory Spec2Isabelle
  imports Main "HOL-Library.Multiset"
begin

section \<open>Python values and errors\<close>

text \<open>
  The exceptions the data pipeline of \<^verbatim>\<open>src/utils/reader.py\<close> can raise. Every
  raise of the source is a branch of the model returning \<open>Inl\<close> of one of these.
  \<open>SystemExit\<close> carries the key name that \<^verbatim>\<open>Language.__init__\<close> logs before
  calling \<^verbatim>\<open>sys.exit()\<close>.
\<close>

datatype py_error =
    KeyError
  | ValueError
  | IndexError
  | AttributeError string
  | AssertionError
  | FileNotFoundError
  | SystemExit string

subsection \<open>Ordered dictionaries\<close>

text \<open>
  A Python \<^verbatim>\<open>dict\<close> keeps insertion order; assigning to a key that is already
  present replaces the value in place and does not change \<^verbatim>\<open>len\<close>. The model is
  an association list with unique keys.
\<close>

fun dict_set :: "('k \<times> 'v) list \<Rightarrow> 'k \<Rightarrow> 'v \<Rightarrow> ('k \<times> 'v) list" where
  "dict_set [] k v = [(k, v)]"
| "dict_set ((k', v') # d) k v =
     (if k' = k then (k, v) # d else (k', v') # dict_set d k v)"

definition dict_get :: "('k \<times> 'v) list \<Rightarrow> 'k \<Rightarrow> py_error + 'v" where
  "dict_get d k = (case map_of d k of None \<Rightarrow> Inl KeyError | Some v \<Rightarrow> Inr v)"

text \<open>\<^verbatim>\<open>dict(pairs)\<close>: later pairs override earlier ones.\<close>

definition dict_of_pairs :: "('k \<times> 'v) list \<Rightarrow> ('k \<times> 'v) list" where
  "dict_of_pairs ps = foldl (\<lambda>d (k, v). dict_set d k v) [] ps"

subsection \<open>Strings\<close>

text \<open>\<^verbatim>\<open>s.split(' ')\<close>: split at every single space; the result is never empty.\<close>

fun split_sp :: "string \<Rightarrow> string list" where
  "split_sp [] = [[]]"
| "split_sp (c # cs) =
     (if c = CHR '' '' then [] # split_sp cs
      else (case split_sp cs of [] \<Rightarrow> [[c]] | w # ws \<Rightarrow> (c # w) # ws))"

text \<open>
  The ASCII characters Python treats as whitespace in \<^verbatim>\<open>str.strip()\<close>,
  \<^verbatim>\<open>str.split()\<close> and \<^verbatim>\<open>int()\<close>: tab, line feed, vertical tab, form feed,
  carriage return, the four separators 0x1c..0x1f and the space.
\<close>

definition is_space :: "char \<Rightarrow> bool" where
  "is_space c = (of_char c \<in> set [9, 10, 11, 12, 13, 28, 29, 30, 31, 32 :: nat])"

definition strip :: "string \<Rightarrow> string" where
  "strip s = rev (dropWhile is_space (rev (dropWhile is_space s)))"

definition is_digit :: "char \<Rightarrow> bool" where
  "is_digit c = (48 \<le> (of_char c :: nat) \<and> (of_char c :: nat) \<le> 57)"

text \<open>
  The digits of a decimal literal as \<^verbatim>\<open>int()\<close> reads them: at least one digit,
  single underscores allowed between digits only. The accumulator is the value read
  so far; \<open>None\<close> is the \<^verbatim>\<open>ValueError\<close>.
\<close>

fun digits_value :: "nat \<Rightarrow> string \<Rightarrow> nat option" where
  "digits_value acc [] = Some acc"
| "digits_value acc (c # cs) =
     (if is_digit c then digits_value (10 * acc + (of_char c - 48)) cs
      else if c = CHR ''_'' then
        (case cs of [] \<Rightarrow> None
         | d # ds \<Rightarrow> if is_digit d then digits_value acc cs else None)
      else None)"

definition unsigned_value :: "string \<Rightarrow> nat option" where
  "unsigned_value s =
     (case s of [] \<Rightarrow> None
      | c # cs \<Rightarrow> if is_digit c then digits_value 0 s else None)"

text \<open>
  \<^verbatim>\<open>int(s)\<close> on a string of ASCII characters: surrounding whitespace is ignored,
  one sign is allowed, then decimal digits.
\<close>

definition py_int :: "string \<Rightarrow> int option" where
  "py_int s =
     (case strip s of
        [] \<Rightarrow> None
      | c # cs \<Rightarrow>
          if c = CHR ''-'' then map_option (\<lambda>n. - int n) (unsigned_value cs)
          else if c = CHR ''+'' then map_option int (unsigned_value cs)
          else map_option int (unsigned_value (c # cs)))"

text \<open>
  \<^verbatim>\<open>s.split()\<close> without an argument: the maximal runs of characters that are not
  whitespace. The first argument is the run being read.
\<close>

fun split_ws_from :: "string \<Rightarrow> string \<Rightarrow> string list" where
  "split_ws_from cur [] = (if cur = [] then [] else [cur])"
| "split_ws_from cur (c # cs) =
     (if is_space c then (if cur = [] then split_ws_from [] cs else cur # split_ws_from [] cs)
      else split_ws_from (cur @ [c]) cs)"

definition split_ws :: "string \<Rightarrow> string list" where
  "split_ws s = split_ws_from [] s"

section \<open>Vocabulary\<close>

text \<open>
  The fields of a \<^verbatim>\<open>Vocabulary\<close> that \<^verbatim>\<open>_load_data\<close> fills. The embedding
  matrix (floating point, numpy and torch) is not part of the model: filling it can
  only raise, it never changes one of the fields below.
\<close>

record Vocabulary =
  word_to_id :: "(string \<times> int) list"
  id_to_word :: "(int \<times> string) list"
  language_identifiers :: "string list"
  raw_vocab_size :: int
  embedding_size :: int

text \<open>
  The file is the list of its lines as text-mode iteration yields them (each with its
  line terminator). \<^verbatim>\<open>file.readline()\<close> is the first line, or the empty string at
  end of file; the loop then enumerates the remaining lines from index 0.
\<close>

definition first_line :: "string list \<Rightarrow> string list" where
  "first_line lns = split_sp (case lns of [] \<Rightarrow> [] | l # _ \<Rightarrow> l)"

text \<open>The words the file lists, one for each line after the header.\<close>

definition file_words :: "string list \<Rightarrow> string list" where
  "file_words lns = map (\<lambda>line. hd (split_sp line)) (tl lns)"

text \<open>
  \<^verbatim>\<open>for index, line in enumerate(file)\<close>: the first field of the line gets the
  index of the line, \<^verbatim>\<open>self._word_to_id[line_as_list[0]] = index\<close>.
\<close>

fun load_words :: "(string \<times> int) list \<Rightarrow> int \<Rightarrow> string list \<Rightarrow> (string \<times> int) list" where
  "load_words d index [] = d"
| "load_words d index (line # rest) =
     load_words (dict_set d (hd (split_sp line)) index) (index + 1) rest"

text \<open>
  The language identifiers and then the reserved tokens get the current size of the
  dictionary, \<^verbatim>\<open>self._word_to_id[token] = len(self._word_to_id)\<close>.
\<close>

fun add_tokens :: "(string \<times> int) list \<Rightarrow> string list \<Rightarrow> (string \<times> int) list" where
  "add_tokens d [] = d"
| "add_tokens d (token # rest) = add_tokens (dict_set d token (int (length d))) rest"

definition reserved_tokens :: "string list" where
  "reserved_tokens = [''<SOS>'', ''<EOS>'', ''<UNK>'', ''<PAD>'']"

text \<open>
  \<^verbatim>\<open>Vocabulary._load_data\<close>, called by the constructor with the language
  identifiers already stored. The header is read with \<^verbatim>\<open>int(first_line[0])\<close> and
  \<^verbatim>\<open>int(first_line[1])\<close>; \<^verbatim>\<open>_id_to_word\<close> is
  \<^verbatim>\<open>dict(zip(word_to_id.values(), word_to_id.keys()))\<close>.
\<close>

definition Vocabulary_load_data :: "string list \<Rightarrow> string list \<Rightarrow> py_error + Vocabulary" where
  "Vocabulary_load_data langs lns =
     (let fl = first_line lns in
      (case py_int (fl ! 0) of
         None \<Rightarrow> Inl ValueError
       | Some n \<Rightarrow>
           (if length fl < 2 then Inl IndexError
            else (case py_int (fl ! 1) of
                    None \<Rightarrow> Inl ValueError
                  | Some d \<Rightarrow>
                      (let w0 = load_words [] 0 (tl lns);
                           w1 = add_tokens w0 langs;
                           w2 = add_tokens w1 reserved_tokens
                       in Inr \<lparr> word_to_id = w2,
                                id_to_word = dict_of_pairs (zip (map snd w2) (map fst w2)),
                                language_identifiers = langs,
                                raw_vocab_size = n + 4 + int (length langs),
                                embedding_size = d \<rparr>)))))"


text \<open>
  What a caller can pass to \<^verbatim>\<open>Vocabulary.__call__\<close>, by its Python type. The
  source tests \<^verbatim>\<open>isinstance(expression, str)\<close> first, then whether
  \<^verbatim>\<open>type(expression)\<close> is exactly \<^verbatim>\<open>int\<close>, \<^verbatim>\<open>numpy.int32\<close> or
  \<^verbatim>\<open>numpy.int64\<close>; a \<^verbatim>\<open>bool\<close> is an \<^verbatim>\<open>int\<close> by inheritance but its type is
  not in the tuple. The result is a \<open>PyInt\<close> (an id) or a \<open>PyStr\<close> (a word).
\<close>

datatype expression =
    PyStr string
  | PyInt int
  | NpInt32 int
  | NpInt64 int
  | PyBool bool
  | PyNone
  | PyOther string

fun Vocabulary_call :: "Vocabulary \<Rightarrow> expression \<Rightarrow> py_error + expression" where
  "Vocabulary_call v (PyStr w) = map_sum id PyInt (dict_get (word_to_id v) w)"
| "Vocabulary_call v (PyInt i) = map_sum id PyStr (dict_get (id_to_word v) i)"
| "Vocabulary_call v (NpInt32 i) = map_sum id PyStr (dict_get (id_to_word v) i)"
| "Vocabulary_call v (NpInt64 i) = map_sum id PyStr (dict_get (id_to_word v) i)"
| "Vocabulary_call v _ = Inl ValueError"

text \<open>
  The \<^verbatim>\<open>tokens\<close> property: a dictionary of the four reserved tokens with their
  ids, built by four lookups in \<^verbatim>\<open>word_to_id\<close>.
\<close>

definition Vocabulary_tokens :: "Vocabulary \<Rightarrow> py_error + (string \<times> int) list" where
  "Vocabulary_tokens v =
     (case those (map (map_of (word_to_id v)) reserved_tokens) of
        None \<Rightarrow> Inl KeyError
      | Some ids \<Rightarrow> Inr (zip reserved_tokens ids))"

text \<open>\<^verbatim>\<open>self._vocabulary.tokens['<PAD>']\<close>, as the padders read it.\<close>

definition pad_token :: "Vocabulary \<Rightarrow> py_error + int" where
  "pad_token v =
     (case Vocabulary_tokens v of
        Inl e \<Rightarrow> Inl e
      | Inr t \<Rightarrow> dict_get t ''<PAD>'')"

text \<open>Encoding a word and decoding the id it got.\<close>

definition round_trip :: "Vocabulary \<Rightarrow> string \<Rightarrow> py_error + expression" where
  "round_trip v w = (case Vocabulary_call v (PyStr w) of Inl e \<Rightarrow> Inl e | Inr i \<Rightarrow> Vocabulary_call v i)"

text \<open>
  The layout of the special tokens the specification describes: with \<open>m\<close> the id of
  \<^verbatim>\<open><SOS>\<close>, the four reserved tokens have the ids \<open>m, m + 1, m + 2, m + 3\<close> in
  their fixed order, every other word has an id below \<open>m\<close>, and the \<open>k\<close> language
  identifiers have the ids \<open>m - k, ..., m - 1\<close> in their order.
\<close>

definition reserved_highest :: "Vocabulary \<Rightarrow> bool" where
  "reserved_highest v =
     (case dict_get (word_to_id v) ''<SOS>'' of
        Inl _ \<Rightarrow> False
      | Inr m \<Rightarrow>
          map (dict_get (word_to_id v)) reserved_tokens = map (\<lambda>j. Inr (m + j)) [0, 1, 2, 3] \<and>
          (\<forall>(w, i) \<in> set (word_to_id v). w \<notin> set reserved_tokens \<longrightarrow> i < m) \<and>
          map (dict_get (word_to_id v)) (language_identifiers v) =
            map (\<lambda>j. Inr (m - int (length (language_identifiers v)) + int j))
              [0..<length (language_identifiers v)])"

text \<open>Numbering a list of keys from a first id on: what inserting fresh keys does.\<close>

fun number_from :: "int \<Rightarrow> 'a list \<Rightarrow> ('a \<times> int) list" where
  "number_from i [] = []"
| "number_from i (x # xs) = (x, i) # number_from (i + 1) xs"

subsection \<open>Example vocabulary files\<close>

text \<open>The vocabulary file of the specification's end-to-end scenario.\<close>

definition example_vocab_file :: "string list" where
  "example_vocab_file =
     [''2 3'' @ [CHR 0x0A],
      ''hello 0.1 0.2 0.3'' @ [CHR 0x0A],
      ''world 0.4 0.5 0.6'' @ [CHR 0x0A]]"

text \<open>The vocabulary that file gives with the language identifier \<^verbatim>\<open><2>\<close>.\<close>

definition example_vocabulary :: Vocabulary where
  "example_vocabulary =
     \<lparr> word_to_id =
         [(''hello'', 0), (''world'', 1), (''<2>'', 2), (''<SOS>'', 3), (''<EOS>'', 4),
          (''<UNK>'', 5), (''<PAD>'', 6)],
       id_to_word =
         [(0, ''hello''), (1, ''world''), (2, ''<2>''), (3, ''<SOS>''), (4, ''<EOS>''),
          (5, ''<UNK>''), (6, ''<PAD>'')],
       language_identifiers = [''<2>''],
       raw_vocab_size = 7,
       embedding_size = 3 \<rparr>"

text \<open>A vocabulary file that lists the language tag among its words.\<close>

definition tagged_vocab_file :: "string list" where
  "tagged_vocab_file =
     [''2 1'' @ [CHR 0x0A],
      ''hello 0.1'' @ [CHR 0x0A],
      ''<en> 0.2'' @ [CHR 0x0A]]"

text \<open>A vocabulary file in which a word occurs on two lines.\<close>

definition repeated_vocab_file :: "string list" where
  "repeated_vocab_file =
     [''3 1'' @ [CHR 0x0A],
      ''the 0.1'' @ [CHR 0x0A],
      ''cat 0.2'' @ [CHR 0x0A],
      ''the 0.3'' @ [CHR 0x0A]]"

section \<open>Padding\<close>

subsection \<open>Python and numpy primitives\<close>

text \<open>\<^verbatim>\<open>range(start, stop, step)\<close>; a step of zero raises \<^verbatim>\<open>ValueError\<close>.\<close>

definition py_range :: "int \<Rightarrow> int \<Rightarrow> int \<Rightarrow> py_error + int list" where
  "py_range start stop step =
     (if step = 0 then Inl ValueError
      else if 0 < step then
        Inr (map (\<lambda>k. start + int k * step) [0..<nat ((stop - start + step - 1) div step)])
      else
        Inr (map (\<lambda>k. start + int k * step) [0..<nat ((start - stop - step - 1) div (- step))]))"

text \<open>
  \<^verbatim>\<open>xs[i:j]\<close>: negative bounds count from the end, both are clamped. The bounds are
  given as the position of the first element of the slice and the number of elements.
\<close>

definition slice_bounds :: "nat \<Rightarrow> int \<Rightarrow> int \<Rightarrow> nat \<times> nat" where
  "slice_bounds len i j =
     (let n = int len;
          lo = (if i < 0 then max (i + n) 0 else min i n);
          hi = (if j < 0 then max (j + n) 0 else min j n)
      in (nat lo, nat (hi - lo)))"

definition py_slice :: "'a list \<Rightarrow> int \<Rightarrow> int \<Rightarrow> 'a list" where
  "py_slice xs i j =
     (case slice_bounds (length xs) i j of (lo, m) \<Rightarrow> take m (drop lo xs))"

text \<open>
  The idiom all readers use to cut data into segments:
  \<^verbatim>\<open>for index in range(0, len(data), max_segment_size)\<close> with
  \<^verbatim>\<open>data[index:index + max_segment_size]\<close>.
\<close>

definition segments_of :: "int \<Rightarrow> 'a list \<Rightarrow> py_error + 'a list list" where
  "segments_of max_segment_size data =
     (case py_range 0 (int (length data)) max_segment_size of
        Inl e \<Rightarrow> Inl e
      | Inr indices \<Rightarrow>
          Inr (map (\<lambda>index. py_slice data index (index + max_segment_size)) indices))"

text \<open>
  \<^verbatim>\<open>row.insert(-1, x)\<close>: the new element goes before the last one; into an empty
  list it is simply inserted.
\<close>

definition insert_before_last :: "'a list \<Rightarrow> 'a \<Rightarrow> 'a list" where
  "insert_before_last row x = (case row of [] \<Rightarrow> [x] | _ \<Rightarrow> butlast row @ [x, last row])"

text \<open>
  \<^verbatim>\<open>a[:-1] = ids\<close> for a one-dimensional array \<open>a\<close> of \<open>n + 1\<close> cells: numpy copies
  a list of \<open>n\<close> values, broadcasts a list of one value to all \<open>n\<close> cells, and raises
  \<^verbatim>\<open>ValueError\<close> on any other length. The result is the first \<open>n\<close> cells.
\<close>

definition np_assign :: "nat \<Rightarrow> int list \<Rightarrow> py_error + int list" where
  "np_assign n ids =
     (if length ids = n then Inr ids
      else if length ids = 1 then Inr (replicate n (hd ids))
      else Inl ValueError)"

text \<open>
  \<^verbatim>\<open>numpy.array(rows)\<close> as a two-dimensional array: the rows must have one length.
  With \<^verbatim>\<open>dtype='int'\<close> rows of different lengths raise \<^verbatim>\<open>ValueError\<close>; without
  it numpy raises the same error from release 1.24 on and built a one-dimensional array
  of objects before. The values of the pipeline are ids and lengths, within the range of
  a 64-bit integer.
\<close>

definition np_array :: "int list list \<Rightarrow> py_error + int list list" where
  "np_array rows =
     (if \<forall>r \<in> set rows. length r = length (hd rows) then Inr rows else Inl ValueError)"

text \<open>
  \<^verbatim>\<open>sorted(data, key=lambda x: x[-1], reverse=True)\<close> on the values of the rows:
  descending by the last element, rows with equal keys in their original order. An
  empty row makes \<^verbatim>\<open>x[-1]\<close> raise \<^verbatim>\<open>IndexError\<close>.
\<close>

definition sorted_by_length :: "int list list \<Rightarrow> py_error + int list list" where
  "sorted_by_length rows =
     (if [] \<in> set rows then Inl IndexError else Inr (sort_key (\<lambda>x. - last x) rows))"

subsection \<open>The store of row objects\<close>

text \<open>
  The rows of the converted data are mutable objects (\<^verbatim>\<open>PostPadding.create_batch\<close>
  pads them in place), shared between the lists that hold them. A store maps the
  address of a row to its current value; a list of rows is the list of their addresses.
  A new object gets the next free address.
\<close>

type_synonym addr = nat

type_synonym store = "int list list"

definition alloc :: "store \<Rightarrow> int list \<Rightarrow> addr \<times> store" where
  "alloc h row = (length h, h @ [row])"

fun alloc_rows :: "store \<Rightarrow> int list list \<Rightarrow> addr list \<times> store" where
  "alloc_rows h [] = ([], h)"
| "alloc_rows h (row # rows) =
     (case alloc h row of (a, h1) \<Rightarrow>
        (case alloc_rows h1 rows of (as, h2) \<Rightarrow> (a # as, h2)))"

text \<open>
  \<^verbatim>\<open>copy.deepcopy\<close> of a list of rows: every row is copied to a new object; the memo
  maps a row that was already copied to its copy.
\<close>

fun deepcopy_rows :: "store \<Rightarrow> (addr \<times> addr) list \<Rightarrow> addr list \<Rightarrow> addr list \<times> store" where
  "deepcopy_rows h memo [] = ([], h)"
| "deepcopy_rows h memo (a # as) =
     (case map_of memo a of
        Some b \<Rightarrow> (case deepcopy_rows h memo as of (bs, h') \<Rightarrow> (b # bs, h'))
      | None \<Rightarrow>
          (case alloc h (h ! a) of (b, h1) \<Rightarrow>
             (case deepcopy_rows h1 ((a, b) # memo) as of (bs, h') \<Rightarrow> (b # bs, h'))))"

definition deepcopy :: "store \<Rightarrow> addr list \<Rightarrow> addr list \<times> store" where
  "deepcopy h as = deepcopy_rows h [] as"

subsection \<open>PostPadding\<close>

text \<open>
  \<^verbatim>\<open>PostPadding.__call__\<close>. The tokenizer \<^verbatim>\<open>ids_from_sentence(self._vocabulary, line)\<close>
  of \<^verbatim>\<open>src/utils/utils.py\<close> is the parameter \<open>tok\<close>. Each line becomes its ids
  followed by their number.
\<close>

definition PostPadding_call ::
  "(string \<Rightarrow> int list) \<Rightarrow> int \<Rightarrow> string list \<Rightarrow> py_error + int list list" where
  "PostPadding_call tok max_segment_size data =
     (case segments_of max_segment_size data of
        Inl e \<Rightarrow> Inl e
      | Inr segments \<Rightarrow>
          Inr (concat (map (map (\<lambda>line. tok line @ [int (length (tok line))])) segments)))"

text \<open>
  The inner loop of \<^verbatim>\<open>PostPadding.create_batch\<close> on one row:
  \<^verbatim>\<open>while len(row) - 1 < batch_length: row.insert(-1, tokens['<PAD>'])\<close>.
\<close>

function pad_row :: "Vocabulary \<Rightarrow> int \<Rightarrow> int list \<Rightarrow> py_error + int list" where
  "pad_row v batch_length row =
     (if int (length row) - 1 < batch_length then
        (case pad_token v of
           Inl e \<Rightarrow> Inl e
         | Inr p \<Rightarrow> pad_row v batch_length (insert_before_last row p))
      else Inr row)"
  by pat_completeness auto
termination
  by (relation "measure (\<lambda>(v, batch_length, row). nat (batch_length + 1 - int (length row)))")
     (auto simp: insert_before_last_def split: list.splits)

declare pad_row.simps [simp del]

text \<open>The outer loop: the rows of the sorted batch are padded in place, in order.\<close>

fun pad_rows :: "Vocabulary \<Rightarrow> int \<Rightarrow> store \<Rightarrow> addr list \<Rightarrow> py_error + store" where
  "pad_rows v batch_length h [] = Inr h"
| "pad_rows v batch_length h (a # as) =
     (case pad_row v batch_length (h ! a) of
        Inl e \<Rightarrow> Inl e
      | Inr row \<Rightarrow> pad_rows v batch_length (h[a := row]) as)"

text \<open>
  \<^verbatim>\<open>PostPadding.create_batch\<close> on a list of row objects. The result is the array and
  the store after the rows were padded.
\<close>

definition PostPadding_create_batch ::
  "Vocabulary \<Rightarrow> store \<Rightarrow> addr list \<Rightarrow> py_error + int list list \<times> store" where
  "PostPadding_create_batch v h data =
     (if \<exists>a \<in> set data. h ! a = [] then Inl IndexError
      else
        (case sort_key (\<lambda>a. - last (h ! a)) data of
           [] \<Rightarrow> Inl IndexError
         | first # others \<Rightarrow>
             (case pad_rows v (last (h ! first)) h (first # others) of
                Inl e \<Rightarrow> Inl e
              | Inr h' \<Rightarrow>
                  (case np_array (map (\<lambda>a. h' ! a) (first # others)) of
                     Inl e \<Rightarrow> Inl e
                   | Inr array \<Rightarrow> Inr (array, h')))))"

subsection \<open>PrePadding\<close>

text \<open>\<^verbatim>\<open>while len(ids) < segment_length: ids.append(tokens['<PAD>'])\<close>.\<close>

function pad_ids :: "Vocabulary \<Rightarrow> nat \<Rightarrow> int list \<Rightarrow> py_error + int list" where
  "pad_ids v segment_length ids =
     (if length ids < segment_length then
        (case pad_token v of
           Inl e \<Rightarrow> Inl e
         | Inr p \<Rightarrow> pad_ids v segment_length (ids @ [p]))
      else Inr ids)"
  by pat_completeness auto
termination
  by (relation "measure (\<lambda>(v, segment_length, ids). segment_length - length ids)") auto

declare pad_ids.simps [simp del]

text \<open>
  The body of the inner loop of \<^verbatim>\<open>PrePadding.__call__\<close> for one line: the ids are
  padded, written into the first \<open>segment_length\<close> cells of a zero array of
  \<open>segment_length + 1\<close> cells, and the number of ids before padding into the last cell.
\<close>

definition PrePadding_line ::
  "Vocabulary \<Rightarrow> (string \<Rightarrow> int list) \<Rightarrow> nat \<Rightarrow> string \<Rightarrow> py_error + int list" where
  "PrePadding_line v tok segment_length line =
     (case pad_ids v segment_length (tok line) of
        Inl e \<Rightarrow> Inl e
      | Inr ids \<Rightarrow>
          (case np_assign segment_length ids of
             Inl e \<Rightarrow> Inl e
           | Inr cells \<Rightarrow> Inr (cells @ [int (length (tok line))])))"

fun PrePadding_lines ::
  "Vocabulary \<Rightarrow> (string \<Rightarrow> int list) \<Rightarrow> nat \<Rightarrow> string list \<Rightarrow> py_error + int list list" where
  "PrePadding_lines v tok segment_length [] = Inr []"
| "PrePadding_lines v tok segment_length (line # rest) =
     (case PrePadding_line v tok segment_length line of
        Inl e \<Rightarrow> Inl e
      | Inr row \<Rightarrow>
          (case PrePadding_lines v tok segment_length rest of
             Inl e \<Rightarrow> Inl e
           | Inr rows \<Rightarrow> Inr (row # rows)))"

text \<open>
  The outer loop: for each segment the length is that of the tokenized first line,
  \<^verbatim>\<open>len(ids_from_sentence(vocabulary, segment[0]))\<close>. The result keeps the rows of
  each segment together.
\<close>

fun PrePadding_segments ::
  "Vocabulary \<Rightarrow> (string \<Rightarrow> int list) \<Rightarrow> string list list \<Rightarrow> py_error + int list list list" where
  "PrePadding_segments v tok [] = Inr []"
| "PrePadding_segments v tok (segment # rest) =
     (case segment of
        [] \<Rightarrow> Inl IndexError
      | first # _ \<Rightarrow>
          (case PrePadding_lines v tok (length (tok first)) segment of
             Inl e \<Rightarrow> Inl e
           | Inr rows \<Rightarrow>
               (case PrePadding_segments v tok rest of
                  Inl e \<Rightarrow> Inl e
                | Inr rowss \<Rightarrow> Inr (rows # rowss))))"

definition PrePadding_call ::
  "Vocabulary \<Rightarrow> (string \<Rightarrow> int list) \<Rightarrow> int \<Rightarrow> string list \<Rightarrow> py_error + int list list" where
  "PrePadding_call v tok max_segment_size data =
     (case segments_of max_segment_size data of
        Inl e \<Rightarrow> Inl e
      | Inr segments \<Rightarrow>
          (case PrePadding_segments v tok segments of
             Inl e \<Rightarrow> Inl e
           | Inr rowss \<Rightarrow> Inr (concat rowss)))"

text \<open>
  \<^verbatim>\<open>PrePadding.create_batch\<close>: \<^verbatim>\<open>numpy.array(sorted(data, key=..., reverse=True))\<close>.
  The rows are read, none is modified.
\<close>

definition PrePadding_create_batch :: "int list list \<Rightarrow> py_error + int list list" where
  "PrePadding_create_batch rows =
     (case sorted_by_length rows of
        Inl e \<Rightarrow> Inl e
      | Inr sorted_rows \<Rightarrow> np_array sorted_rows)"

text \<open>
  Modelled from the spec: \<^verbatim>\<open>ids_from_sentence\<close> is defined in
  \<^verbatim>\<open>src/utils/utils.py\<close>, which is not among the sources. The specification says a
  line is tokenized to ids through the vocabulary and that unknown words map to
  \<^verbatim>\<open><UNK>\<close>: the words of the line are looked up in \<^verbatim>\<open>word_to_id\<close>. The
  padders take the tokenizer as a parameter; this one instantiates it in examples.
\<close>

definition ids_from_sentence :: "Vocabulary \<Rightarrow> string \<Rightarrow> int list" where
  "ids_from_sentence v line =
     map (\<lambda>w. case map_of (word_to_id v) w of
                 Some i \<Rightarrow> i
               | None \<Rightarrow> (case map_of (word_to_id v) ''<UNK>'' of Some u \<Rightarrow> u | None \<Rightarrow> 0))
       (split_ws line)"

section \<open>DataQueue\<close>

text \<open>
  \<^verbatim>\<open>list(map(int, line.strip().split()))\<close>; \<open>None\<close> is the \<^verbatim>\<open>ValueError\<close> of
  \<^verbatim>\<open>int\<close> on a field that is not a number.
\<close>

definition parse_id_line :: "string \<Rightarrow> int list option" where
  "parse_id_line line = those (map py_int (split_ws (strip line)))"

text \<open>
  \<^verbatim>\<open>DataQueue.generator\<close> over the lines of the id file. A generator is modelled by
  the list of the values it yields, in order, and the exception that ended it, if any.
  While the segment is below the bound the line is parsed and appended; otherwise a copy
  of the segment is yielded and the segment is cleared, and the loop moves on to the next
  line. After the last line the segment is yielded as it is.
\<close>

fun generator_loop ::
  "int \<Rightarrow> int list list \<Rightarrow> string list \<Rightarrow> int list list list \<times> py_error option" where
  "generator_loop max_segment_size data_segment [] = ([data_segment], None)"
| "generator_loop max_segment_size data_segment (line # rest) =
     (if int (length data_segment) < max_segment_size then
        (case parse_id_line line of
           None \<Rightarrow> ([], Some ValueError)
         | Some ids \<Rightarrow> generator_loop max_segment_size (data_segment @ [ids]) rest)
      else
        (case generator_loop max_segment_size [] rest of
           (segments, err) \<Rightarrow> (data_segment # segments, err)))"

definition generator :: "int \<Rightarrow> string list \<Rightarrow> int list list list \<times> py_error option" where
  "generator max_segment_size id_file = generator_loop max_segment_size [] id_file"

text \<open>An id file of three one-word lines, as \<^verbatim>\<open>_generate_id_file\<close> writes them.\<close>

definition three_line_id_file :: "string list" where
  "three_line_id_file = [''11 1'' @ [CHR 0x0A], ''12 1'' @ [CHR 0x0A], ''13 1'' @ [CHR 0x0A]]"

section \<open>Language\<close>

text \<open>
  The \<^verbatim>\<open>input_pipelines\<close> argument: a \<^verbatim>\<open>dict\<close> with string keys, or a value of
  another type.
\<close>

datatype 'p pipelines_arg = PyDict "(string \<times> 'p) list" | NotADict

record ('p, 'v) Language =
  lang_identifier :: string
  lang_input_pipelines :: "(string \<times> 'p) list"
  lang_vocabulary :: 'v

text \<open>
  \<^verbatim>\<open>Language.__init__\<close>. A failed assertion is caught, an error naming the key is
  logged and \<^verbatim>\<open>sys.exit()\<close> raises \<^verbatim>\<open>SystemExit\<close>: the constructor does not
  return. \<open>SystemExit\<close> carries the text of the failed assertion that is logged.
\<close>

definition Language_init ::
  "string \<Rightarrow> 'p pipelines_arg \<Rightarrow> 'v \<Rightarrow> py_error + ('p, 'v) Language" where
  "Language_init ident pipelines vocab =
     (case pipelines of
        NotADict \<Rightarrow> Inl (SystemExit ''train, dev, test'')
      | PyDict d \<Rightarrow>
          if ''train'' \<notin> fst ` set d then Inl (SystemExit ''train'')
          else if ''dev'' \<notin> fst ` set d then Inl (SystemExit ''dev'')
          else if ''test'' \<notin> fst ` set d then Inl (SystemExit ''test'')
          else Inr \<lparr> lang_identifier = ident, lang_input_pipelines = d, lang_vocabulary = vocab \<rparr>)"

section \<open>Corpora\<close>

text \<open>
  An instance is the dictionary of its attributes. The file system is a map from paths
  to the lines of the file at that path.
\<close>

datatype 'v py_value =
    VStr string
  | VBool bool
  | VNone
  | VVocabulary 'v
  | VLines "string list"
  | VFields "string list list"
  | VClassAttribute

type_synonym 'v py_object = "(string \<times> 'v py_value) list"

type_synonym file_system = "string \<Rightarrow> string list option"

text \<open>
  Modelled from the spec: the base class \<^verbatim>\<open>Component\<close> is defined in
  \<^verbatim>\<open>src/utils/utils.py\<close>, which is not among the sources. The specification says
  that a component declares the static metadata \<^verbatim>\<open>abstract\<close> and
  \<^verbatim>\<open>interface\<close>; with these, the names an instance of \<^verbatim>\<open>Parallel\<close> finds on
  its classes are those \<^verbatim>\<open>Parallel\<close> and \<^verbatim>\<open>Corpora\<close> define in
  \<^verbatim>\<open>reader.py\<close>.
\<close>

definition Parallel_class_attributes :: "string list" where
  "Parallel_class_attributes =
     [''interface'', ''abstract'', ''__init__'', ''_load_data'', ''initialize_corpus'',
      ''source_vocabulary'', ''target_vocabulary'', ''source_vocab_size'',
      ''target_vocab_size'', ''data_path'', ''data'', ''embedding_size'', ''vocabulary'',
      ''vocab_size'']"

definition getattr :: "string list \<Rightarrow> 'v py_object \<Rightarrow> string \<Rightarrow> py_error + 'v py_value" where
  "getattr class_attributes self name =
     (case map_of self name of
        Some x \<Rightarrow> Inr x
      | None \<Rightarrow>
          if name \<in> set class_attributes then Inr VClassAttribute
          else Inl (AttributeError name))"

text \<open>\<^verbatim>\<open>Corpora.__init__\<close>: the path must be a file; four attributes are set.\<close>

definition Corpora_init :: "file_system \<Rightarrow> string \<Rightarrow> 'v \<Rightarrow> bool \<Rightarrow> py_error + 'v py_object" where
  "Corpora_init fs data_path vocab cuda =
     (if fs data_path = None then Inl AssertionError
      else Inr (dict_set (dict_set (dict_set (dict_set []
             ''_vocabulary'' (VVocabulary vocab))
             ''_data_path'' (VStr data_path))
             ''_cuda'' (VBool cuda))
             ''_data'' VNone))"

text \<open>
  \<^verbatim>\<open>Parallel.__init__\<close> takes a \<^verbatim>\<open>separator\<close> and only calls the constructor of
  \<^verbatim>\<open>Corpora\<close>.
\<close>

definition Parallel_init ::
  "file_system \<Rightarrow> string \<Rightarrow> string \<Rightarrow> 'v \<Rightarrow> bool \<Rightarrow> py_error + 'v py_object" where
  "Parallel_init fs data_path separator vocab cuda = Corpora_init fs data_path vocab cuda"

text \<open>
  \<^verbatim>\<open>s.split(sep)\<close> for a separator that is not empty. The second argument is the
  field being read.
\<close>

function split_on :: "string \<Rightarrow> string \<Rightarrow> string \<Rightarrow> string list" where
  "split_on sep cur [] = [cur]"
| "split_on sep cur (c # cs) =
     (if sep \<noteq> [] \<and> take (length sep) (c # cs) = sep
      then cur # split_on sep [] (drop (length sep) (c # cs))
      else split_on sep (cur @ [c]) cs)"
  by pat_completeness auto
termination
  by (relation "measure (\<lambda>(sep, cur, s). length s)") auto

text \<open>
  \<^verbatim>\<open>Parallel._load_data\<close>. For each line, \<^verbatim>\<open>line[:-1].split(self._separator_token)\<close>
  reads the attribute \<^verbatim>\<open>_separator_token\<close> of the instance; \<^verbatim>\<open>split\<close> raises
  \<^verbatim>\<open>TypeError\<close> (here \<open>ValueError\<close> stands for both) on a separator that is not a
  string and \<^verbatim>\<open>ValueError\<close> on an empty one.
\<close>

fun Parallel_load_lines ::
  "'v py_object \<Rightarrow> string list list \<Rightarrow> string list \<Rightarrow> py_error + string list list" where
  "Parallel_load_lines self data [] = (if data = [] then Inl ValueError else Inr data)"
| "Parallel_load_lines self data (line # rest) =
     (case getattr Parallel_class_attributes self ''_separator_token'' of
        Inl e \<Rightarrow> Inl e
      | Inr (VStr sep) \<Rightarrow>
          if sep = [] then Inl ValueError
          else Parallel_load_lines self (data @ [split_on sep [] (butlast line)]) rest
      | Inr _ \<Rightarrow> Inl ValueError)"

definition Parallel_load_data ::
  "file_system \<Rightarrow> 'v py_object \<Rightarrow> string \<Rightarrow> py_error + string list list" where
  "Parallel_load_data fs self data_path =
     (case fs data_path of
        None \<Rightarrow> Inl FileNotFoundError
      | Some lns \<Rightarrow> Parallel_load_lines self [] lns)"

text \<open>
  \<^verbatim>\<open>Parallel.initialize_corpus\<close>: \<^verbatim>\<open>self._data = self._load_data(self._data_path)\<close>.
  The result is the instance with its \<^verbatim>\<open>_data\<close> attribute set.
\<close>

definition Parallel_initialize_corpus :: "file_system \<Rightarrow> 'v py_object \<Rightarrow> py_error + 'v py_object" where
  "Parallel_initialize_corpus fs self =
     (case getattr Parallel_class_attributes self ''_data_path'' of
        Inl e \<Rightarrow> Inl e
      | Inr (VStr data_path) \<Rightarrow>
          (case Parallel_load_data fs self data_path of
             Inl e \<Rightarrow> Inl e
           | Inr data \<Rightarrow> Inr (dict_set self ''_data'' (VFields data)))
      | Inr _ \<Rightarrow> Inl ValueError)"

text \<open>A file system with one parallel corpus of two lines.\<close>

definition parallel_fs :: file_system where
  "parallel_fs path =
     (if path = ''corpus.txt''
      then Some [''good morning|guten Morgen'' @ [CHR 0x0A], ''thanks|danke'' @ [CHR 0x0A]]
      else None)"

subsection \<open>Converted samples\<close>

text \<open>A converted sample: an id sequence followed by its length.\<close>

definition converted_sample :: "int list \<Rightarrow> bool" where
  "converted_sample row = (row \<noteq> [] \<and> last row = int (length row) - 1)"

text \<open>
  A row padded to \<open>batch_length\<close> cells before its last element: what the loop of
  \<^verbatim>\<open>PostPadding.create_batch\<close> leaves in a row that was not empty.
\<close>

definition padded_to :: "int \<Rightarrow> int \<Rightarrow> int list \<Rightarrow> int list" where
  "padded_to p batch_length row =
     butlast row @ replicate (nat (batch_length - (int (length row) - 1))) p @ [last row]"

section \<open>MemoryInput\<close>

text \<open>
  \<^verbatim>\<open>Monolingual._load_data\<close>: the lines of the file; an empty file raises
  \<^verbatim>\<open>ValueError\<close>.
\<close>

definition Monolingual_load_data :: "file_system \<Rightarrow> string \<Rightarrow> py_error + string list" where
  "Monolingual_load_data fs data_path =
     (case fs data_path of
        None \<Rightarrow> Inl FileNotFoundError
      | Some lns \<Rightarrow> if lns = [] then Inl ValueError else Inr lns)"

datatype padding_type = PostPadding | PrePadding

text \<open>
  The state of a \<^verbatim>\<open>MemoryInput\<close> over a monolingual corpus. \<^verbatim>\<open>_data\<close> is a list
  of row objects in the store.
\<close>

record MemoryInput =
  mi_cuda :: bool
  mi_shuffle :: bool
  mi_batch_size :: int
  mi_max_segment_size :: int
  mi_padder :: padding_type
  mi_vocabulary :: Vocabulary
  mi_data :: "addr list"

text \<open>
  \<^verbatim>\<open>MemoryInput.__init__\<close>: the padder is chosen, the corpus is loaded, and the
  padder's conversion of the corpus is stored as \<^verbatim>\<open>_data\<close>; each converted sample
  is a new object.
\<close>

definition MemoryInput_init ::
  "(string \<Rightarrow> int list) \<Rightarrow> file_system \<Rightarrow> store \<Rightarrow> int \<Rightarrow> int \<Rightarrow> bool \<Rightarrow> bool \<Rightarrow> string
     \<Rightarrow> Vocabulary \<Rightarrow> padding_type \<Rightarrow> py_error + MemoryInput \<times> store" where
  "MemoryInput_init tok fs h max_segment_size batch_size shuffle cuda data_path v padding =
     (case Monolingual_load_data fs data_path of
        Inl e \<Rightarrow> Inl e
      | Inr lns \<Rightarrow>
          (case (case padding of
                   PostPadding \<Rightarrow> PostPadding_call tok max_segment_size lns
                 | PrePadding \<Rightarrow> PrePadding_call v tok max_segment_size lns) of
             Inl e \<Rightarrow> Inl e
           | Inr rows \<Rightarrow>
               (case alloc_rows h rows of
                  (data, h') \<Rightarrow>
                    Inr (\<lparr> mi_cuda = cuda, mi_shuffle = shuffle, mi_batch_size = batch_size,
                           mi_max_segment_size = max_segment_size, mi_padder = padding,
                           mi_vocabulary = v, mi_data = data \<rparr>, h'))))"

text \<open>\<^verbatim>\<open>self._padder.create_batch(rows)\<close> for the two padders.\<close>

definition create_batch ::
  "padding_type \<Rightarrow> Vocabulary \<Rightarrow> store \<Rightarrow> addr list \<Rightarrow> py_error + int list list \<times> store" where
  "create_batch padding v h data =
     (case padding of
        PostPadding \<Rightarrow> PostPadding_create_batch v h data
      | PrePadding \<Rightarrow>
          (case PrePadding_create_batch (map (\<lambda>a. h ! a) data) of
             Inl e \<Rightarrow> Inl e
           | Inr array \<Rightarrow> Inr (array, h)))"

text \<open>
  The inner loop of \<^verbatim>\<open>batch_generator\<close> over the indices
  \<^verbatim>\<open>range(0, len(segment) - batch_size + 1, batch_size)\<close>. The result is the batches
  yielded, the exception that ended the iteration, if any, and the store. The rows a
  failed call may have padded are copies that nothing refers to afterwards.
\<close>

fun batches_of_segment ::
  "padding_type \<Rightarrow> Vocabulary \<Rightarrow> int \<Rightarrow> store \<Rightarrow> addr list \<Rightarrow> int list
     \<Rightarrow> int list list list \<times> py_error option \<times> store" where
  "batches_of_segment padding v batch_size h segment [] = ([], None, h)"
| "batches_of_segment padding v batch_size h segment (index # rest) =
     (case create_batch padding v h (py_slice segment index (index + batch_size)) of
        Inl e \<Rightarrow> ([], Some e, h)
      | Inr (batch, h1) \<Rightarrow>
          (case batches_of_segment padding v batch_size h1 segment rest of
             (batches, err, h2) \<Rightarrow> (batch # batches, err, h2)))"

text \<open>
  The outer loop over the segments \<^verbatim>\<open>_segment_generator\<close> yields: each is a deep
  copy of a slice of \<^verbatim>\<open>_data\<close>, made when the loop reaches it. \<open>shuffle_fn\<close> stands
  for \<^verbatim>\<open>sklearn.utils.shuffle\<close>, which returns a new list of the same rows.
\<close>

fun batch_generator_loop ::
  "(addr list \<Rightarrow> addr list) \<Rightarrow> MemoryInput \<Rightarrow> store \<Rightarrow> addr list list
     \<Rightarrow> int list list list \<times> py_error option \<times> store" where
  "batch_generator_loop shuffle_fn mi h [] = ([], None, h)"
| "batch_generator_loop shuffle_fn mi h (slice # rest) =
     (case deepcopy h slice of
        (data_segment, h1) \<Rightarrow>
          (let shuffled = (if mi_shuffle mi then shuffle_fn data_segment else data_segment) in
           (case py_range 0 (int (length shuffled) - mi_batch_size mi + 1) (mi_batch_size mi) of
              Inl e \<Rightarrow> ([], Some e, h1)
            | Inr indices \<Rightarrow>
                (case batches_of_segment (mi_padder mi) (mi_vocabulary mi) (mi_batch_size mi)
                        h1 shuffled indices of
                   (batches, Some e, h2) \<Rightarrow> (batches, Some e, h2)
                 | (batches, None, h2) \<Rightarrow>
                     (case batch_generator_loop shuffle_fn mi h2 rest of
                        (later, err, h3) \<Rightarrow> (batches @ later, err, h3))))))"

definition batch_generator ::
  "(addr list \<Rightarrow> addr list) \<Rightarrow> MemoryInput \<Rightarrow> store
     \<Rightarrow> int list list list \<times> py_error option \<times> store" where
  "batch_generator shuffle_fn mi h =
     (case segments_of (mi_max_segment_size mi) (mi_data mi) of
        Inl e \<Rightarrow> ([], Some e, h)
      | Inr slices \<Rightarrow> batch_generator_loop shuffle_fn mi h slices)"

subsection \<open>The batches as a function of the stored rows\<close>

text \<open>
  What a pass yields, computed from the values of the stored rows alone. The values of
  the copied segment are threaded through the batches of the segment, since
  \<^verbatim>\<open>PostPadding.create_batch\<close> pads the rows of a batch in place.
\<close>

fun pad_all :: "Vocabulary \<Rightarrow> int \<Rightarrow> int list list \<Rightarrow> py_error + int list list" where
  "pad_all v batch_length [] = Inr []"
| "pad_all v batch_length (row # rows) =
     (case pad_row v batch_length row of
        Inl e \<Rightarrow> Inl e
      | Inr row' \<Rightarrow>
          (case pad_all v batch_length rows of
             Inl e \<Rightarrow> Inl e
           | Inr rows' \<Rightarrow> Inr (row' # rows')))"

definition PostPadding_batch :: "Vocabulary \<Rightarrow> int list list \<Rightarrow> py_error + int list list" where
  "PostPadding_batch v rows =
     (if [] \<in> set rows then Inl IndexError
      else
        (case sort_key (\<lambda>x. - last x) rows of
           [] \<Rightarrow> Inl IndexError
         | first # others \<Rightarrow>
             (case pad_all v (last first) (first # others) of
                Inl e \<Rightarrow> Inl e
              | Inr padded \<Rightarrow> np_array padded)))"

definition batch_values :: "padding_type \<Rightarrow> Vocabulary \<Rightarrow> int list list \<Rightarrow> py_error + int list list" where
  "batch_values padding v rows =
     (case padding of
        PostPadding \<Rightarrow> PostPadding_batch v rows
      | PrePadding \<Rightarrow> PrePadding_create_batch rows)"

text \<open>The value a row of a batch has after \<^verbatim>\<open>create_batch\<close> returned.\<close>

definition batch_update :: "padding_type \<Rightarrow> Vocabulary \<Rightarrow> int list list \<Rightarrow> int list \<Rightarrow> int list" where
  "batch_update padding v rows row =
     (case padding of
        PostPadding \<Rightarrow>
          (case sort_key (\<lambda>x. - last x) rows of
             [] \<Rightarrow> row
           | first # others \<Rightarrow>
               (case pad_row v (last first) row of Inl e \<Rightarrow> row | Inr row' \<Rightarrow> row'))
      | PrePadding \<Rightarrow> row)"

definition update_slice :: "('a \<Rightarrow> 'a) \<Rightarrow> 'a list \<Rightarrow> int \<Rightarrow> int \<Rightarrow> 'a list" where
  "update_slice g xs i j =
     (case slice_bounds (length xs) i j of
        (lo, m) \<Rightarrow> take lo xs @ map g (take m (drop lo xs)) @ drop (lo + m) xs)"

fun segment_batches ::
  "padding_type \<Rightarrow> Vocabulary \<Rightarrow> int \<Rightarrow> int list list \<Rightarrow> int list
     \<Rightarrow> int list list list \<times> py_error option" where
  "segment_batches padding v batch_size rows [] = ([], None)"
| "segment_batches padding v batch_size rows (index # rest) =
     (case batch_values padding v (py_slice rows index (index + batch_size)) of
        Inl e \<Rightarrow> ([], Some e)
      | Inr batch \<Rightarrow>
          (case segment_batches padding v batch_size
                  (update_slice
                     (batch_update padding v (py_slice rows index (index + batch_size)))
                     rows index (index + batch_size))
                  rest of
             (batches, err) \<Rightarrow> (batch # batches, err)))"

fun pass_batches ::
  "padding_type \<Rightarrow> Vocabulary \<Rightarrow> int \<Rightarrow> int list list list
     \<Rightarrow> int list list list \<times> py_error option" where
  "pass_batches padding v batch_size [] = ([], None)"
| "pass_batches padding v batch_size (rows # rest) =
     (case py_range 0 (int (length rows) - batch_size + 1) batch_size of
        Inl e \<Rightarrow> ([], Some e)
      | Inr indices \<Rightarrow>
          (case segment_batches padding v batch_size rows indices of
             (batches, Some e) \<Rightarrow> (batches, Some e)
           | (batches, None) \<Rightarrow>
               (case pass_batches padding v batch_size rest of
                  (later, err) \<Rightarrow> (batches @ later, err))))"

definition batches_of_rows ::
  "padding_type \<Rightarrow> Vocabulary \<Rightarrow> int \<Rightarrow> int \<Rightarrow> int list list
     \<Rightarrow> int list list list \<times> py_error option" where
  "batches_of_rows padding v batch_size max_segment_size rows =
     (case segments_of max_segment_size rows of
        Inl e \<Rightarrow> ([], Some e)
      | Inr segments \<Rightarrow> pass_batches padding v batch_size segments)"

text \<open>
  What a call of \<^verbatim>\<open>batch_generator\<close> yields, and the store it leaves for the next
  call.
\<close>

definition yielded ::
  "(addr list \<Rightarrow> addr list) \<Rightarrow> MemoryInput \<Rightarrow> store \<Rightarrow> int list list list \<times> py_error option" where
  "yielded shuffle_fn mi h =
     (case batch_generator shuffle_fn mi h of (batches, err, h') \<Rightarrow> (batches, err))"

definition store_after :: "(addr list \<Rightarrow> addr list) \<Rightarrow> MemoryInput \<Rightarrow> store \<Rightarrow> store" where
  "store_after shuffle_fn mi h =
     (case batch_generator shuffle_fn mi h of (batches, err, h') \<Rightarrow> h')"

text \<open>A file system with a monolingual corpus of five lines.\<close>

definition monolingual_fs :: file_system where
  "monolingual_fs path =
     (if path = ''mono.txt''
      then Some [''hello world'' @ [CHR 0x0A], ''hello'' @ [CHR 0x0A],
                 ''world hello hello'' @ [CHR 0x0A], ''world'' @ [CHR 0x0A],
                 ''hello hello'' @ [CHR 0x0A]]
      else None)"

text \<open>
  The reader of the end-to-end scenario: that corpus, segments of two samples, batches
  of two samples, no shuffling, in a store that is empty before.
\<close>

definition example_memory_input :: "py_error + MemoryInput \<times> store" where
  "example_memory_input =
     MemoryInput_init (ids_from_sentence example_vocabulary) monolingual_fs [] 2 2 False False
       ''mono.txt'' example_vocabulary PostPadding"

section \<open>Properties of the vocabulary\<close>

subsection \<open>Dictionaries\<close>

lemma dict_set_fresh: "k \<notin> fst ` set d \<Longrightarrow> dict_set d k v = d @ [(k, v)]"
  by (induction d) auto

lemma map_of_dict_set: "map_of (dict_set d k v) = (map_of d)(k \<mapsto> v)"
  by (induction d) (auto simp: fun_upd_twist)

lemma keys_dict_set: "fst ` set (dict_set d k v) = insert k (fst ` set d)"
  using arg_cong [OF map_of_dict_set [of d k v], of dom]
  by (simp add: dom_map_of_conv_image_fst)

lemma distinct_dict_set: "distinct (map fst d) \<Longrightarrow> distinct (map fst (dict_set d k v))"
  by (induction d) (auto simp: keys_dict_set)

lemma map_of_fold_dict_set:
  "map_of (foldl (\<lambda>d (k, v). dict_set d k v) d0 ps) = map_of d0 ++ map_of (rev ps)"
proof (induction ps arbitrary: d0)
  case Nil
  then show ?case by simp
next
  case (Cons p ps)
  obtain k v where p: "p = (k, v)" by (cases p)
  show ?case
    by (rule ext) (simp add: Cons.IH p map_of_dict_set map_add_def split: option.splits)
qed

lemma map_of_dict_of_pairs: "map_of (dict_of_pairs ps) = map_of (rev ps)"
  by (simp add: dict_of_pairs_def map_of_fold_dict_set)

subsection \<open>Numbering fresh keys\<close>

lemma map_fst_number_from [simp]: "map fst (number_from i xs) = xs"
  by (induction xs arbitrary: i) auto

lemma length_number_from [simp]: "length (number_from i xs) = length xs"
  by (induction xs arbitrary: i) auto

lemma number_from_append:
  "number_from i (xs @ ys) = number_from i xs @ number_from (i + int (length xs)) ys"
  by (induction xs arbitrary: i) (auto simp: algebra_simps)

lemma number_from_nth:
  "j < length xs \<Longrightarrow> number_from i xs ! j = (xs ! j, i + int j)"
proof (induction xs arbitrary: i j)
  case Nil
  then show ?case by simp
next
  case (Cons x xs)
  then show ?case by (cases j) (auto simp: algebra_simps)
qed

lemma map_snd_number_from:
  "map snd (number_from i xs) = map (\<lambda>j. i + int j) [0..<length xs]"
  by (rule nth_equalityI) (auto simp: number_from_nth)

lemma distinct_snd_number_from: "distinct (map snd (number_from i xs))"
  by (simp add: map_snd_number_from distinct_map inj_on_def)

lemma map_of_number_from:
  assumes "distinct xs" and "j < length xs"
  shows "map_of (number_from i xs) (xs ! j) = Some (i + int j)"
proof -
  have "(xs ! j, i + int j) \<in> set (number_from i xs)"
    using assms(2) number_from_nth [of j xs i] by (metis length_number_from nth_mem)
  then show ?thesis
    using assms(1) by (intro map_of_is_SomeI) simp_all
qed

lemma load_words_fresh:
  "distinct (map fst d @ map (\<lambda>line. hd (split_sp line)) ls) \<Longrightarrow>
   load_words d i ls = d @ number_from i (map (\<lambda>line. hd (split_sp line)) ls)"
proof (induction ls arbitrary: d i)
  case Nil
  then show ?case by simp
next
  case (Cons l ls)
  have fresh: "hd (split_sp l) \<notin> fst ` set d" using Cons.prems by auto
  have "distinct (map fst (d @ [(hd (split_sp l), i)]) @ map (\<lambda>line. hd (split_sp line)) ls)"
    using Cons.prems by auto
  from Cons.IH [OF this] show ?case by (simp add: dict_set_fresh [OF fresh])
qed

lemma add_tokens_fresh:
  "distinct (map fst d @ ts) \<Longrightarrow> add_tokens d ts = d @ number_from (int (length d)) ts"
proof (induction ts arbitrary: d)
  case Nil
  then show ?case by simp
next
  case (Cons t ts)
  have fresh: "t \<notin> fst ` set d" using Cons.prems by auto
  have "distinct (map fst (d @ [(t, int (length d))]) @ ts)"
    using Cons.prems by auto
  from Cons.IH [OF this] show ?case by (simp add: dict_set_fresh [OF fresh] add.commute)
qed

lemma distinct_load_words:
  "distinct (map fst d) \<Longrightarrow> distinct (map fst (load_words d i ls))"
  by (induction ls arbitrary: d i) (auto simp: distinct_dict_set)

lemma distinct_add_tokens:
  "distinct (map fst d) \<Longrightarrow> distinct (map fst (add_tokens d ts))"
  by (induction ts arbitrary: d) (auto simp: distinct_dict_set)

subsection \<open>The loaded vocabulary\<close>

lemma load_data_fields:
  assumes "Vocabulary_load_data langs lns = Inr v"
  shows "word_to_id v = add_tokens (add_tokens (load_words [] 0 (tl lns)) langs) reserved_tokens"
    and "id_to_word v = dict_of_pairs (zip (map snd (word_to_id v)) (map fst (word_to_id v)))"
    and "language_identifiers v = langs"
  using assms
  by (auto simp: Vocabulary_load_data_def Let_def split: option.splits if_splits)


lemma distinct_keys_word_to_id:
  "Vocabulary_load_data langs lns = Inr v \<Longrightarrow> distinct (map fst (word_to_id v))"
  by (simp add: load_data_fields(1) distinct_add_tokens distinct_load_words)

lemma keys_add_tokens: "fst ` set (add_tokens d ts) = fst ` set d \<union> set ts"
  by (induction ts arbitrary: d) (auto simp: keys_dict_set)

text \<open>Every vocabulary that was loaded has the four reserved tokens, so the padders find
  the id of \<^verbatim>\<open><PAD>\<close>.\<close>

lemma loaded_vocabulary_has_pad:
  assumes "Vocabulary_load_data langs lns = Inr v"
  shows "\<exists>pad. pad_token v = Inr pad"
proof -
  have keys: "set reserved_tokens \<subseteq> dom (map_of (word_to_id v))"
    by (simp add: load_data_fields(1) [OF assms] dom_map_of_conv_image_fst keys_add_tokens)
  have "\<exists>i. map_of (word_to_id v) t = Some i" if "t \<in> set reserved_tokens" for t
    using keys that by blast
  then obtain a b c d where "map_of (word_to_id v) ''<SOS>'' = Some a"
    "map_of (word_to_id v) ''<EOS>'' = Some b" "map_of (word_to_id v) ''<UNK>'' = Some c"
    "map_of (word_to_id v) ''<PAD>'' = Some d"
    unfolding reserved_tokens_def by (metis list.set_intros(1,2))
  then have "pad_token v = Inr d"
    by (simp add: pad_token_def Vocabulary_tokens_def reserved_tokens_def dict_get_def)
  then show ?thesis by blast
qed

lemma word_to_id_distinct_tokens:
  assumes "Vocabulary_load_data langs lns = Inr v"
    and "distinct (file_words lns @ langs @ reserved_tokens)"
  shows "word_to_id v = number_from 0 (file_words lns @ langs @ reserved_tokens)"
proof -
  let ?ws = "file_words lns"
  have w0: "load_words [] 0 (tl lns) = number_from 0 ?ws"
    using assms(2) load_words_fresh [of "[]" "tl lns" 0] by (simp add: file_words_def)
  have d1: "distinct (map fst (number_from 0 ?ws) @ langs)"
    using assms(2) by auto
  have d2: "distinct (map fst (number_from 0 (?ws @ langs)) @ reserved_tokens)"
    using assms(2) by auto
  have w1: "add_tokens (number_from 0 ?ws) langs = number_from 0 (?ws @ langs)"
    using add_tokens_fresh [OF d1] by (simp add: number_from_append)
  have w2: "add_tokens (number_from 0 (?ws @ langs)) reserved_tokens
            = number_from 0 (?ws @ langs @ reserved_tokens)"
    using add_tokens_fresh [OF d2] by (simp add: number_from_append)
  show ?thesis
    by (simp add: load_data_fields(1) [OF assms(1)] w0 w1 w2)
qed

lemma decode_encoded:
  assumes "Vocabulary_load_data langs lns = Inr v"
    and "distinct (map snd (word_to_id v))"
    and "map_of (word_to_id v) w = Some i"
  shows "map_of (id_to_word v) i = Some w"
proof -
  let ?d = "word_to_id v"
  have mem: "(i, w) \<in> set (rev (zip (map snd ?d) (map fst ?d)))"
    using map_of_SomeD [OF assms(3)] by (force simp: set_zip in_set_conv_nth)
  have dist: "distinct (map fst (rev (zip (map snd ?d) (map fst ?d))))"
    using assms(2) by (simp add: rev_map [symmetric])
  show ?thesis
    unfolding load_data_fields(2) [OF assms(1)] map_of_dict_of_pairs
    using map_of_is_SomeI [OF dist mem] .
qed

lemma example_vocabulary_loaded:
  "Vocabulary_load_data [''<2>''] example_vocab_file = Inr example_vocabulary"
  by code_simp



text \<open>
  C6. A lookup through \<^verbatim>\<open>__call__\<close> of a string that is not a key of
  \<^verbatim>\<open>word_to_id\<close>, or of an integer (\<^verbatim>\<open>int\<close>, \<^verbatim>\<open>numpy.int32\<close>,
  \<^verbatim>\<open>numpy.int64\<close>) that is not a key of \<^verbatim>\<open>id_to_word\<close>, fails with
  \<^verbatim>\<open>KeyError\<close>; a lookup of any other type fails with \<^verbatim>\<open>ValueError\<close>; both
  reach the caller as errors. A present string returns its id and a present id its word.
\<close>

theorem call_lookup:
  "(map_of (word_to_id v) w = None \<longrightarrow> Vocabulary_call v (PyStr w) = Inl KeyError)
 \<and> (map_of (word_to_id v) w' = Some i \<longrightarrow> Vocabulary_call v (PyStr w') = Inr (PyInt i))
 \<and> (map_of (id_to_word v) j = None \<longrightarrow>
       Vocabulary_call v (PyInt j) = Inl KeyError
     \<and> Vocabulary_call v (NpInt32 j) = Inl KeyError
     \<and> Vocabulary_call v (NpInt64 j) = Inl KeyError)
 \<and> (map_of (id_to_word v) j' = Some u \<longrightarrow>
       Vocabulary_call v (PyInt j') = Inr (PyStr u)
     \<and> Vocabulary_call v (NpInt32 j') = Inr (PyStr u)
     \<and> Vocabulary_call v (NpInt64 j') = Inr (PyStr u))
 \<and> Vocabulary_call v (PyBool b) = Inl ValueError
 \<and> Vocabulary_call v PyNone = Inl ValueError
 \<and> Vocabulary_call v (PyOther t) = Inl ValueError"
  by (simp add: dict_get_def)

theorem call_lookup_witness:
  "\<exists>v. Vocabulary_load_data [''<2>''] example_vocab_file = Inr v
     \<and> map_of (word_to_id v) ''bye'' = None
     \<and> Vocabulary_call v (PyStr ''bye'') = Inl KeyError
     \<and> map_of (word_to_id v) ''world'' = Some 1
     \<and> Vocabulary_call v (PyStr ''world'') = Inr (PyInt 1)
     \<and> map_of (id_to_word v) 7 = None
     \<and> Vocabulary_call v (NpInt64 7) = Inl KeyError
     \<and> map_of (id_to_word v) 6 = Some ''<PAD>''
     \<and> Vocabulary_call v (PyInt 6) = Inr (PyStr ''<PAD>'')
     \<and> Vocabulary_call v (PyBool True) = Inl ValueError"
proof -
  let ?v = example_vocabulary
  have a: "map_of (word_to_id ?v) ''bye'' = None"
    by (simp add: example_vocabulary_def)
  have b: "map_of (word_to_id ?v) ''world'' = Some 1"
    by (simp add: example_vocabulary_def)
  have c: "map_of (id_to_word ?v) 7 = None"
    by (simp add: example_vocabulary_def)
  have d: "map_of (id_to_word ?v) 6 = Some ''<PAD>''"
    by (simp add: example_vocabulary_def)
  from call_lookup [of ?v "''bye''" "''world''" 1 7 6 "''<PAD>''" True "''float''"]
  show ?thesis
    using a b c d example_vocabulary_loaded by simp
qed

lemma id_of_distinct_token:
  assumes "Vocabulary_load_data langs lns = Inr v"
    and "distinct (file_words lns @ langs @ reserved_tokens)"
    and "j < length (file_words lns @ langs @ reserved_tokens)"
  shows "dict_get (word_to_id v) ((file_words lns @ langs @ reserved_tokens) ! j) = Inr (int j)"
  using map_of_number_from [OF assms(2,3), of 0]
  by (simp add: dict_get_def word_to_id_distinct_tokens [OF assms(1,2)])

lemma id_of_reserved_token:
  assumes "Vocabulary_load_data langs lns = Inr v"
    and "distinct (file_words lns @ langs @ reserved_tokens)"
    and "t < 4"
  shows "dict_get (word_to_id v) (reserved_tokens ! t)
         = Inr (int (length (file_words lns) + length langs) + int t)"
proof -
  have len: "length reserved_tokens = 4" by (simp add: reserved_tokens_def)
  have nth: "(file_words lns @ langs @ reserved_tokens) ! (length (file_words lns) + length langs + t)
             = reserved_tokens ! t"
    by (simp add: nth_append)
  have bound: "length (file_words lns) + length langs + t
               < length (file_words lns @ langs @ reserved_tokens)"
    using assms(3) len by simp
  from id_of_distinct_token [OF assms(1,2) bound] show ?thesis
    unfolding nth by simp
qed

lemma id_of_language_identifier:
  assumes "Vocabulary_load_data langs lns = Inr v"
    and "distinct (file_words lns @ langs @ reserved_tokens)"
    and "j < length langs"
  shows "dict_get (word_to_id v) (langs ! j) = Inr (int (length (file_words lns)) + int j)"
proof -
  have nth: "(file_words lns @ langs @ reserved_tokens) ! (length (file_words lns) + j) = langs ! j"
    using assms(3) by (simp add: nth_append)
  have bound: "length (file_words lns) + j < length (file_words lns @ langs @ reserved_tokens)"
    using assms(3) by simp
  from id_of_distinct_token [OF assms(1,2) bound] show ?thesis
    unfolding nth by simp
qed

lemma other_ids_below_reserved:
  assumes "Vocabulary_load_data langs lns = Inr v"
    and "distinct (file_words lns @ langs @ reserved_tokens)"
    and "(w, i) \<in> set (word_to_id v)"
    and "w \<notin> set reserved_tokens"
  shows "i < int (length (file_words lns) + length langs)"
proof -
  let ?ws = "file_words lns"
  let ?ks = "?ws @ langs @ reserved_tokens"
  have "(w, i) \<in> set (number_from 0 ?ks)"
    using assms(3) unfolding word_to_id_distinct_tokens [OF assms(1,2)] .
  then obtain j where j: "j < length (number_from 0 ?ks)" and at: "number_from 0 ?ks ! j = (w, i)"
    unfolding in_set_conv_nth by blast
  have jlen: "j < length ?ks" using j by simp
  have wi: "w = ?ks ! j" "i = int j"
    using number_from_nth [OF jlen, of 0] at by simp_all
  have "j < length ?ws + length langs"
  proof (rule ccontr)
    assume "\<not> j < length ?ws + length langs"
    then have ge: "length ?ws + length langs \<le> j" by simp
    have "?ks ! j = ((?ws @ langs) @ reserved_tokens) ! j" by simp
    also have "\<dots> = reserved_tokens ! (j - length (?ws @ langs))"
      using ge by (subst nth_append) simp
    finally have eq: "w = reserved_tokens ! (j - length (?ws @ langs))"
      using wi(1) by simp
    have "j - length (?ws @ langs) < length reserved_tokens"
      using jlen ge by simp
    then have "w \<in> set reserved_tokens"
      unfolding eq by (rule nth_mem)
    then show False using assms(4) by simp
  qed
  then show ?thesis using wi(2) by simp
qed

text \<open>
  C4, as amended. When the words of the file, the language identifiers and the four
  reserved tokens are pairwise distinct, \<^verbatim>\<open><SOS>\<close>, \<^verbatim>\<open><EOS>\<close>, \<^verbatim>\<open><UNK>\<close>,
  \<^verbatim>\<open><PAD>\<close> have the four highest ids of \<^verbatim>\<open>word_to_id\<close> in that order, starting
  at the number of file words plus the number of language identifiers, and the
  language identifiers have the ids immediately before them.
\<close>

theorem reserved_tokens_highest:
  assumes "Vocabulary_load_data langs lns = Inr v"
    and "distinct (file_words lns @ langs @ reserved_tokens)"
  shows "reserved_highest v
       \<and> dict_get (word_to_id v) ''<SOS>'' = Inr (int (length (file_words lns) + length langs))"
proof -
  let ?m = "int (length (file_words lns) + length langs)"
  have r: "dict_get (word_to_id v) ''<SOS>'' = Inr ?m"
    "dict_get (word_to_id v) ''<EOS>'' = Inr (?m + 1)"
    "dict_get (word_to_id v) ''<UNK>'' = Inr (?m + 2)"
    "dict_get (word_to_id v) ''<PAD>'' = Inr (?m + 3)"
    using id_of_reserved_token [OF assms, of 0] id_of_reserved_token [OF assms, of 1]
      id_of_reserved_token [OF assms, of 2] id_of_reserved_token [OF assms, of 3]
    by (simp_all add: reserved_tokens_def)
  have others: "\<forall>(w, i) \<in> set (word_to_id v). w \<notin> set reserved_tokens \<longrightarrow> i < ?m"
    using other_ids_below_reserved [OF assms] by blast
  have langs: "map (dict_get (word_to_id v)) langs =
      map (\<lambda>j. Inr (?m - int (length langs) + int j)) [0..<length langs]"
    by (rule nth_equalityI) (simp_all add: id_of_language_identifier [OF assms])
  have "reserved_highest v"
    unfolding reserved_highest_def load_data_fields(3) [OF assms(1)]
    using others langs by (simp add: r) (simp add: reserved_tokens_def r)
  then show ?thesis using r(1) by simp
qed

theorem reserved_tokens_highest_witness:
  "\<exists>v. Vocabulary_load_data [''<2>''] example_vocab_file = Inr v
     \<and> distinct (file_words example_vocab_file @ [''<2>''] @ reserved_tokens)
     \<and> reserved_highest v
     \<and> dict_get (word_to_id v) ''<SOS>'' = Inr 3"
proof -
  have d: "distinct (file_words example_vocab_file @ [''<2>''] @ reserved_tokens)"
    by code_simp
  have n: "length (file_words example_vocab_file) = 2"
    by code_simp
  from reserved_tokens_highest [OF example_vocabulary_loaded d] show ?thesis
    using d n example_vocabulary_loaded by simp
qed

text \<open>
  The claim as stated, for every vocabulary built from a valid file, fails when a
  language identifier is also a word of the file: the identifier is assigned the
  current size of the dictionary without enlarging it, and \<^verbatim>\<open><SOS>\<close> then gets the
  same id.
\<close>

theorem reserved_tokens_highest_counterexample:
  "map_sum id word_to_id (Vocabulary_load_data [''<en>''] tagged_vocab_file)
     = Inr [(''hello'', 0), (''<en>'', 2), (''<SOS>'', 2), (''<EOS>'', 3), (''<UNK>'', 4),
            (''<PAD>'', 5)]
   \<and> map_sum id reserved_highest (Vocabulary_load_data [''<en>''] tagged_vocab_file)
     = Inr False"
  by code_simp

text \<open>
  C8, as amended. In a vocabulary in which no two words share an id, encoding a
  present word through \<^verbatim>\<open>__call__\<close> and decoding the id gives the word back.
\<close>

theorem round_trip_present_word:
  assumes "Vocabulary_load_data langs lns = Inr v"
    and "distinct (map snd (word_to_id v))"
    and "w \<in> fst ` set (word_to_id v)"
  shows "\<exists>i. Vocabulary_call v (PyStr w) = Inr (PyInt i)
           \<and> Vocabulary_call v (PyInt i) = Inr (PyStr w)
           \<and> round_trip v w = Inr (PyStr w)"
proof -
  from assms(3) obtain i where i: "map_of (word_to_id v) w = Some i"
    by (metis domD dom_map_of_conv_image_fst)
  have decoded: "map_of (id_to_word v) i = Some w"
    using decode_encoded [OF assms(1,2) i] .
  show ?thesis
    using i decoded by (auto simp: round_trip_def dict_get_def)
qed

theorem round_trip_present_word_witness:
  "\<exists>v. Vocabulary_load_data [''<2>''] example_vocab_file = Inr v
     \<and> distinct (map snd (word_to_id v))
     \<and> ''world'' \<in> fst ` set (word_to_id v)
     \<and> Vocabulary_call v (PyStr ''world'') = Inr (PyInt 1)
     \<and> Vocabulary_call v (PyInt 1) = Inr (PyStr ''world'')
     \<and> round_trip v ''world'' = Inr (PyStr ''world'')"
proof -
  let ?v = example_vocabulary
  have d: "distinct (map snd (word_to_id ?v))"
    by (simp add: example_vocabulary_def)
  have m: "''world'' \<in> fst ` set (word_to_id ?v)"
    by (simp add: example_vocabulary_def)
  have i: "Vocabulary_call ?v (PyStr ''world'') = Inr (PyInt 1)"
    by (simp add: example_vocabulary_def dict_get_def)
  from round_trip_present_word [OF example_vocabulary_loaded d m] show ?thesis
    using d m i example_vocabulary_loaded by auto
qed

text \<open>
  The claim as stated, for every word present in the vocabulary, fails when a word
  occurs on two lines of the file: \<^verbatim>\<open>the\<close> keeps the index of its last line, 2,
  the dictionary has two entries when \<^verbatim>\<open><SOS>\<close> is added, and id 2 decodes to
  \<^verbatim>\<open><SOS>\<close>.
\<close>

theorem round_trip_counterexample:
  "map_sum id word_to_id (Vocabulary_load_data [] repeated_vocab_file)
     = Inr [(''the'', 2), (''cat'', 1), (''<SOS>'', 2), (''<EOS>'', 3), (''<UNK>'', 4),
            (''<PAD>'', 5)]
   \<and> (''the'', 2) \<in> set (case Vocabulary_load_data [] repeated_vocab_file of
                            Inl e \<Rightarrow> [] | Inr v \<Rightarrow> word_to_id v)
   \<and> (case Vocabulary_load_data [] repeated_vocab_file of
        Inl e \<Rightarrow> Inl e | Inr v \<Rightarrow> round_trip v ''the'') = Inr (PyStr ''<SOS>'')"
  by code_simp

text \<open>Pairwise distinct tokens are enough for the ids to be pairwise distinct.\<close>

lemma distinct_tokens_distinct_ids:
  assumes "Vocabulary_load_data langs lns = Inr v"
    and "distinct (file_words lns @ langs @ reserved_tokens)"
  shows "distinct (map snd (word_to_id v))"
  by (simp add: word_to_id_distinct_tokens [OF assms] distinct_snd_number_from)

section \<open>Properties of the data queue\<close>

text \<open>
  What the generator yields when every line parses and the bound is \<open>S\<close>: a line that
  arrives when a segment is full is consumed by the flush and belongs to no segment, so
  of \<open>M\<close> lines \<open>M div (S + 1)\<close> are lost.
\<close>

lemma generator_loop_sizes:
  assumes "\<forall>l \<in> set lns. parse_id_line l \<noteq> None"
    and "length seg \<le> S"
  shows "sum_list (map length (fst (generator_loop (int S) seg lns)))
           = length seg + length lns - (length seg + length lns) div (S + 1)
       \<and> length (fst (generator_loop (int S) seg lns)) = (length seg + length lns) div (S + 1) + 1
       \<and> snd (generator_loop (int S) seg lns) = None"
  using assms
proof (induction lns arbitrary: seg)
  case Nil
  then show ?case by simp
next
  case (Cons l lns)
  show ?case
  proof (cases "length seg < S")
    case True
    from Cons.prems(1) obtain ids where ids: "parse_id_line l = Some ids" by auto
    have "length (seg @ [ids]) \<le> S" using True by simp
    from Cons.IH [OF _ this] Cons.prems(1) show ?thesis
      using True ids by simp
  next
    case False
    then have full: "length seg = S" using Cons.prems(2) by simp
    have d: "(S + Suc (length lns)) div Suc S = Suc (length lns div Suc S)"
      using div_add_self1 [of "Suc S" "length lns"] by simp
    have le: "length lns div Suc S \<le> length lns" by simp
    obtain segments err where g: "generator_loop (int S) [] lns = (segments, err)"
      by (cases "generator_loop (int S) [] lns")
    have ih: "sum_list (map length segments) = length lns - length lns div Suc S"
      "length segments = Suc (length lns div Suc S)" "err = None"
      using Cons.IH [of "[]"] Cons.prems(1) g by simp_all
    show ?thesis
      using False full d le by (simp add: g ih)
  qed
qed

text \<open>
  C1. The claim is that a file of \<open>M\<close> lines is yielded in \<open>ceil(M / S)\<close> segments whose
  sizes sum to \<open>M\<close>. On a file of three lines with bound 2 the generator yields the first
  two lines and then an empty segment: the third line triggers the flush and is dropped.
\<close>

theorem generator_drops_line:
  "generator 2 three_line_id_file = ([[[11, 1], [12, 1]], []], None)
   \<and> sum_list (map length (fst (generator 2 three_line_id_file))) = 2
   \<and> length three_line_id_file = 3"
  by code_simp

section \<open>Properties of Language\<close>

text \<open>
  C7, as amended. \<^verbatim>\<open>Language.__init__\<close> checks that the input-pipeline mapping
  contains the keys \<^verbatim>\<open>train\<close>, \<^verbatim>\<open>dev\<close> and \<^verbatim>\<open>test\<close>: a dictionary with all
  three (and any others) gives a Language holding it; a dictionary missing one of them,
  or an argument that is not a dictionary, ends in \<^verbatim>\<open>SystemExit\<close> after the missing
  key is logged, and no Language is produced.
\<close>

theorem Language_init_requires_keys:
  "({''train'', ''dev'', ''test''} \<subseteq> fst ` set d \<longrightarrow>
      Language_init i (PyDict d) v
        = Inr \<lparr> lang_identifier = i, lang_input_pipelines = d, lang_vocabulary = v \<rparr>)
 \<and> (\<not> {''train'', ''dev'', ''test''} \<subseteq> fst ` set d' \<longrightarrow>
      (\<exists>k. k \<in> {''train'', ''dev'', ''test''} \<and> k \<notin> fst ` set d'
         \<and> Language_init i (PyDict d') v = Inl (SystemExit k)))
 \<and> Language_init i NotADict v = Inl (SystemExit ''train, dev, test'')"
  by (auto simp: Language_init_def)

theorem Language_init_requires_keys_witness:
  "{''train'', ''dev'', ''test''} \<subseteq> fst ` set [(''train'', 1::nat), (''dev'', 2), (''test'', 3)]
 \<and> Language_init ''en'' (PyDict [(''train'', 1::nat), (''dev'', 2), (''test'', 3)]) (0::nat)
      = Inr \<lparr> lang_identifier = ''en'',
              lang_input_pipelines = [(''train'', 1), (''dev'', 2), (''test'', 3)],
              lang_vocabulary = 0 \<rparr>
 \<and> \<not> {''train'', ''dev'', ''test''} \<subseteq> fst ` set [(''train'', 1::nat), (''test'', 3)]
 \<and> Language_init ''en'' (PyDict [(''train'', 1::nat), (''test'', 3)]) (0::nat)
      = Inl (SystemExit ''dev'')"
  using Language_init_requires_keys
    [of "[(''train'', 1::nat), (''dev'', 2), (''test'', 3)]" "''en''" "0::nat"
        "[(''train'', 1::nat), (''test'', 3)]"]
  by auto

text \<open>
  The claim as stated, that the mapping is validated to contain exactly the three keys,
  fails: a mapping with a fourth key is accepted.
\<close>

theorem Language_init_exactly_counterexample:
  "Language_init ''en''
      (PyDict [(''train'', 1::nat), (''dev'', 2), (''test'', 3), (''extra'', 4)]) (0::nat)
    = Inr \<lparr> lang_identifier = ''en'',
            lang_input_pipelines = [(''train'', 1), (''dev'', 2), (''test'', 3), (''extra'', 4)],
            lang_vocabulary = 0 \<rparr>
 \<and> fst ` set [(''train'', 1::nat), (''dev'', 2), (''test'', 3), (''extra'', 4)]
      \<noteq> {''train'', ''dev'', ''test''}"
proof -
  have built: "Language_init ''en''
      (PyDict [(''train'', 1::nat), (''dev'', 2), (''test'', 3), (''extra'', 4)]) (0::nat)
    = Inr \<lparr> lang_identifier = ''en'',
            lang_input_pipelines = [(''train'', 1), (''dev'', 2), (''test'', 3), (''extra'', 4)],
            lang_vocabulary = 0 \<rparr>"
    by (simp add: Language_init_def)
  have extra: "''extra'' \<in> fst ` set [(''train'', 1::nat), (''dev'', 2), (''test'', 3), (''extra'', 4)]"
    by simp
  have other: "''extra'' \<notin> {''train'', ''dev'', ''test''}"
    by simp
  have "fst ` set [(''train'', 1::nat), (''dev'', 2), (''test'', 3), (''extra'', 4)]
      \<noteq> {''train'', ''dev'', ''test''}"
  proof
    assume eq: "fst ` set [(''train'', 1::nat), (''dev'', 2), (''test'', 3), (''extra'', 4)]
      = {''train'', ''dev'', ''test''}"
    have "''extra'' \<in> {''train'', ''dev'', ''test''}"
      using extra unfolding eq .
    with other show False by (rule notE)
  qed
  with built show ?thesis by (simp only: simp_thms)
qed

section \<open>Properties of the parallel corpus\<close>

lemma Parallel_init_attributes:
  assumes "Parallel_init fs data_path separator vocab cuda = Inr self"
  shows "self = [(''_vocabulary'', VVocabulary vocab), (''_data_path'', VStr data_path),
                 (''_cuda'', VBool cuda), (''_data'', VNone)]"
  using assms by (simp add: Parallel_init_def Corpora_init_def split: if_splits)

lemma Parallel_no_separator:
  assumes "Parallel_init fs data_path separator vocab cuda = Inr self"
  shows "getattr Parallel_class_attributes self ''_separator_token''
         = Inl (AttributeError ''_separator_token'')"
  unfolding Parallel_init_attributes [OF assms]
  by (simp add: getattr_def Parallel_class_attributes_def)

text \<open>
  C10. \<^verbatim>\<open>Parallel.__init__\<close> never stores its \<^verbatim>\<open>separator\<close>, so on a data file
  with at least one line \<^verbatim>\<open>initialize_corpus\<close> fails with an attribute error for
  \<^verbatim>\<open>_separator_token\<close> at the first line, before any sample is produced; whatever
  the file holds when it is read, \<^verbatim>\<open>initialize_corpus\<close> fails.
\<close>

theorem Parallel_never_loads:
  assumes "Parallel_init fs data_path separator vocab cuda = Inr self"
  shows "(fs' data_path = Some (l # rest) \<longrightarrow>
            Parallel_initialize_corpus fs' self = Inl (AttributeError ''_separator_token''))
       \<and> (\<exists>e. Parallel_initialize_corpus fs' self = Inl e)"
proof -
  have path: "getattr Parallel_class_attributes self ''_data_path'' = Inr (VStr data_path)"
    unfolding Parallel_init_attributes [OF assms] by (simp add: getattr_def)
  have lines: "Parallel_load_lines self [] lns =
      (if lns = [] then Inl ValueError else Inl (AttributeError ''_separator_token''))" for lns
    by (cases lns) (simp_all add: Parallel_no_separator [OF assms])
  show ?thesis
    by (cases "fs' data_path") (simp_all add: Parallel_initialize_corpus_def path
        Parallel_load_data_def lines del: Parallel_load_lines.simps)
qed

theorem Parallel_never_loads_witness:
  "\<exists>self. Parallel_init parallel_fs ''corpus.txt'' ''|'' (0::nat) False = Inr self
     \<and> parallel_fs ''corpus.txt''
         = Some [''good morning|guten Morgen'' @ [CHR 0x0A], ''thanks|danke'' @ [CHR 0x0A]]
     \<and> Parallel_initialize_corpus parallel_fs self = Inl (AttributeError ''_separator_token'')"
proof -
  let ?self = "[(''_vocabulary'', VVocabulary (0::nat)), (''_data_path'', VStr ''corpus.txt''),
                (''_cuda'', VBool False), (''_data'', VNone)]"
  have i: "Parallel_init parallel_fs ''corpus.txt'' ''|'' (0::nat) False = Inr ?self"
    by (simp add: Parallel_init_def Corpora_init_def parallel_fs_def)
  have f: "parallel_fs ''corpus.txt''
      = Some ((''good morning|guten Morgen'' @ [CHR 0x0A]) # [''thanks|danke'' @ [CHR 0x0A]])"
    by (simp add: parallel_fs_def)
  from Parallel_never_loads [OF i, of parallel_fs _ _] show ?thesis
    using i f by simp
qed

section \<open>Properties of the padders\<close>

subsection \<open>Padding one row\<close>

lemma insert_before_last_nonempty:
  "row \<noteq> [] \<Longrightarrow> insert_before_last row x = butlast row @ [x, last row]"
  by (cases row) (simp_all add: insert_before_last_def)

lemma pad_row_closed:
  "pad_token v = Inr p \<Longrightarrow> row \<noteq> [] \<Longrightarrow> pad_row v bl row = Inr (padded_to p bl row)"
proof (induction v bl row rule: pad_row.induct)
  case (1 v bl row)
  show ?case
  proof (cases "int (length row) - 1 < bl")
    case True
    let ?row' = "insert_before_last row p"
    have row': "?row' = butlast row @ [p, last row]"
      using "1.prems"(2) by (rule insert_before_last_nonempty)
    have ne: "?row' \<noteq> []" by (simp add: row')
    have ih: "pad_row v bl ?row' = Inr (padded_to p bl ?row')"
      using "1.IH" [OF True "1.prems"(1) "1.prems"(1) ne] .
    have n: "nat (bl - (int (length row) - 1)) = Suc (nat (bl - int (length row)))"
      using True by simp
    have len: "int (length ?row') - 1 = int (length row)"
      using "1.prems"(2) by (simp add: row')
    have "padded_to p bl ?row' = padded_to p bl row"
      unfolding padded_to_def len n by (simp add: row' butlast_append replicate_append_same)
    then show ?thesis
      using True ih "1.prems"(1) by (subst pad_row.simps) simp
  next
    case False
    then have "nat (bl - (int (length row) - 1)) = 0" by simp
    then have "padded_to p bl row = row"
      using "1.prems"(2) by (simp add: padded_to_def)
    then show ?thesis
      using False by (subst pad_row.simps) simp
  qed
qed

lemma padded_to_nonempty [simp]: "padded_to p bl row \<noteq> []"
  by (simp add: padded_to_def)

lemma last_padded_to [simp]: "last (padded_to p bl row) = last row"
  by (simp add: padded_to_def)

lemma padded_to_idem: "padded_to p bl (padded_to p bl row) = padded_to p bl row"
proof -
  have "bl - (int (length (padded_to p bl row)) - 1) \<le> 0"
    by (cases row rule: rev_cases) (simp_all add: padded_to_def)
  then have "nat (bl - (int (length (padded_to p bl row)) - 1)) = 0" by simp
  then show ?thesis
    by (subst (1) padded_to_def) (simp add: butlast_append padded_to_def)
qed

lemma length_padded_to_converted:
  assumes "converted_sample row" and "last row \<le> bl"
  shows "int (length (padded_to p bl row)) = bl + 1"
  using assms by (cases row rule: rev_cases) (auto simp: padded_to_def converted_sample_def)

subsection \<open>Padding the rows of a batch in the store\<close>

lemma pad_rows_fold:
  "pad_token v = Inr p \<Longrightarrow> \<forall>a \<in> set as. a < length h \<and> h ! a \<noteq> [] \<Longrightarrow>
   pad_rows v bl h as = Inr (fold (\<lambda>a h. h[a := padded_to p bl (h ! a)]) as h)"
proof (induction as arbitrary: h)
  case Nil
  then show ?case by simp
next
  case (Cons a as)
  have "h ! a \<noteq> []" using Cons.prems(2) by simp
  then have row: "pad_row v bl (h ! a) = Inr (padded_to p bl (h ! a))"
    by (rule pad_row_closed [OF Cons.prems(1)])
  have inv: "\<forall>a' \<in> set as. a' < length (h[a := padded_to p bl (h ! a)])
               \<and> h[a := padded_to p bl (h ! a)] ! a' \<noteq> []"
    using Cons.prems(2) by (simp add: nth_list_update)
  show ?case
    using Cons.IH [OF Cons.prems(1) inv] by (simp add: row)
qed

lemma length_fold_update [simp]:
  "length (fold (\<lambda>a h. h[a := f (h ! a)]) as h) = length h"
  by (induction as arbitrary: h) simp_all

lemma fold_update_nth:
  assumes "\<And>x. f (f x) = f x" and "b < length h"
  shows "fold (\<lambda>a h. h[a := f (h ! a)]) as h ! b = (if b \<in> set as then f (h ! b) else h ! b)"
  using assms(2)
proof (induction as arbitrary: h)
  case Nil
  then show ?case by simp
next
  case (Cons a as)
  have "b < length (h[a := f (h ! a)])" using Cons.prems by simp
  from Cons.IH [OF this] show ?case
    using Cons.prems by (cases "a = b") (simp_all add: assms(1))
qed

lemma insort_key_map:
  "insort_key f (g x) (map g xs) = map g (insort_key (\<lambda>x. f (g x)) x xs)"
  by (induction xs) simp_all

lemma sort_key_map: "sort_key f (map g xs) = map g (sort_key (\<lambda>x. f (g x)) xs)"
  by (induction xs) (simp_all add: insort_key_map)

lemma hd_sort_key_least:
  assumes "x \<in> set xs"
  shows "f (hd (sort_key f xs)) \<le> f x"
proof -
  have ne: "sort_key f xs \<noteq> []" using assms by (cases xs) auto
  then obtain y ys where ys: "sort_key f xs = y # ys" by (cases "sort_key f xs") auto
  have "sorted (map f (y # ys))" using sorted_sort_key [of f xs] by (simp add: ys)
  moreover have "x \<in> set (y # ys)" using assms set_sort [of f xs] by (simp add: ys)
  ultimately show ?thesis by (auto simp: ys)
qed

lemma last_hd_sorted_is_Max:
  fixes rows :: "int list list"
  assumes "rows \<noteq> []"
  shows "last (hd (sort_key (\<lambda>x. - last x) rows)) = Max (set (map last rows))"
proof -
  let ?s = "sort_key (\<lambda>x. - last x) rows"
  have "?s \<noteq> []" using assms by (cases rows) auto
  then have "hd ?s \<in> set ?s" by (rule hd_in_set)
  then have mem: "hd ?s \<in> set rows" by (simp only: set_sort)
  have "Max (set (map last rows)) = last (hd ?s)"
  proof (rule Max_eqI)
    show "finite (set (map last rows))" by simp
    show "last (hd ?s) \<in> set (map last rows)" using mem by simp
    fix y assume "y \<in> set (map last rows)"
    then obtain x where x: "x \<in> set rows" "y = last x" by auto
    from hd_sort_key_least [OF x(1), of "\<lambda>x. - last x"] show "y \<le> last (hd ?s)"
      by (simp add: x(2))
  qed
  then show ?thesis by simp
qed

lemma PostPadding_create_batch_result:
  fixes h :: store
  assumes "data \<noteq> []"
    and "\<forall>a \<in> set data. a < length h \<and> converted_sample (h ! a)"
    and "pad_token v = Inr pad"
  defines "rows \<equiv> map (\<lambda>a. h ! a) data"
  defines "L \<equiv> Max (set (map last rows))"
  shows "PostPadding_create_batch v h data =
           Inr (map (padded_to pad L) (sort_key (\<lambda>x. - last x) rows),
                fold (\<lambda>a h. h[a := padded_to pad L (h ! a)])
                  (sort_key (\<lambda>a. - last (h ! a)) data) h)"
proof -
  let ?sorted = "sort_key (\<lambda>a. - last (h ! a)) data"
  let ?h' = "fold (\<lambda>a h. h[a := padded_to pad L (h ! a)]) ?sorted h"
  have nonempty: "\<not> (\<exists>a \<in> set data. h ! a = [])"
    using assms(2) by (auto simp: converted_sample_def)
  have rows_ne: "rows \<noteq> []" using assms(1) by (simp add: rows_def)
  have sorted_rows: "map (\<lambda>a. h ! a) ?sorted = sort_key (\<lambda>x. - last x) rows"
    by (simp add: rows_def sort_key_map)
  obtain first others where fo: "?sorted = first # others"
    using assms(1) length_sort [of "\<lambda>a. - last (h ! a)" data] by (cases ?sorted) simp_all
  have "h ! first = hd (map (\<lambda>a. h ! a) ?sorted)" by (simp add: fo)
  then have bl: "last (h ! first) = L"
    unfolding sorted_rows L_def using last_hd_sorted_is_Max [OF rows_ne] by simp
  have valid: "\<forall>a \<in> set ?sorted. a < length h \<and> h ! a \<noteq> []"
    using assms(2) by (auto simp: converted_sample_def)
  have padded: "pad_rows v L h ?sorted = Inr ?h'"
    using pad_rows_fold [OF assms(3) valid] .
  have at: "?h' ! a = padded_to pad L (h ! a)" if "a \<in> set data" for a
    using that assms(2) fold_update_nth [of "padded_to pad L" a h ?sorted]
    by (simp add: padded_to_idem)
  have arr: "map (\<lambda>a. ?h' ! a) ?sorted = map (padded_to pad L) (sort_key (\<lambda>x. - last x) rows)"
  proof -
    have "map (\<lambda>a. ?h' ! a) ?sorted = map (\<lambda>a. padded_to pad L (h ! a)) ?sorted"
      by (rule map_cong) (simp_all add: at)
    also have "\<dots> = map (padded_to pad L) (map (\<lambda>a. h ! a) ?sorted)" by simp
    finally show ?thesis by (simp only: sorted_rows)
  qed
  have len: "int (length r) = L + 1" if "r \<in> set (map (padded_to pad L) (sort_key (\<lambda>x. - last x) rows))" for r
  proof -
    from that obtain x where x: "x \<in> set rows" "r = padded_to pad L x" by auto
    have c: "converted_sample x" using x(1) assms(2) by (auto simp: rows_def)
    have "last x \<le> L" unfolding L_def using x(1) by (intro Max_ge) auto
    from length_padded_to_converted [OF c this] show ?thesis by (simp add: x(2))
  qed
  have rect: "np_array (map (padded_to pad L) (sort_key (\<lambda>x. - last x) rows))
              = Inr (map (padded_to pad L) (sort_key (\<lambda>x. - last x) rows))"
  proof -
    have "\<forall>r \<in> set (map (padded_to pad L) (sort_key (\<lambda>x. - last x) rows)).
            length r = length (hd (map (padded_to pad L) (sort_key (\<lambda>x. - last x) rows)))"
    proof
      fix r assume r: "r \<in> set (map (padded_to pad L) (sort_key (\<lambda>x. - last x) rows))"
      have "map (padded_to pad L) (sort_key (\<lambda>x. - last x) rows) \<noteq> []"
        using r by (cases "map (padded_to pad L) (sort_key (\<lambda>x. - last x) rows)") simp_all
      then have "hd (map (padded_to pad L) (sort_key (\<lambda>x. - last x) rows))
           \<in> set (map (padded_to pad L) (sort_key (\<lambda>x. - last x) rows))"
        by (rule hd_in_set)
      from len [OF this] len [OF r]
      show "length r = length (hd (map (padded_to pad L) (sort_key (\<lambda>x. - last x) rows)))"
        by simp
    qed
    then show ?thesis unfolding np_array_def by (rule if_P)
  qed
  show ?thesis
    unfolding PostPadding_create_batch_def
    using nonempty padded rect arr by (simp add: fo bl)
qed

subsection \<open>PostPadding.create_batch\<close>

lemma sorted_descending:
  fixes rows :: "int list list"
  shows "sorted (rev (map last (sort_key (\<lambda>x. - last x) rows)))"
proof -
  have "sorted (map (\<lambda>x. - last x) (sort_key (\<lambda>x. - last x) rows))"
    by (rule sorted_sort_key)
  then show ?thesis
    by (simp add: sorted_wrt_rev sorted_map sorted_wrt_map)
qed

lemma pad_cells:
  assumes "converted_sample r" and "nat (last r) \<le> j" and "j < nat L"
  shows "(butlast r @ replicate (nat (L - last r)) pad @ [last r]) ! j = pad"
proof -
  define k where "k = j - nat (last r)"
  have len: "length (butlast r) = nat (last r)"
    using assms(1) by (simp add: converted_sample_def)
  have j: "j = length (butlast r) + k"
    unfolding len k_def using assms(2) by simp
  have k: "k < length (replicate (nat (L - last r)) pad)"
    using assms(2,3) by (simp add: k_def)
  have "(butlast r @ replicate (nat (L - last r)) pad @ [last r]) ! j
        = (replicate (nat (L - last r)) pad @ [last r]) ! k"
    unfolding j by (rule nth_append_length_plus)
  also have "\<dots> = replicate (nat (L - last r)) pad ! k"
    using k by (simp only: nth_append if_True)
  also have "\<dots> = pad"
    using k by simp
  finally show ?thesis .
qed

lemma padded_to_converted:
  assumes "converted_sample r"
  shows "padded_to pad L r = butlast r @ replicate (nat (L - last r)) pad @ [last r]"
  using assms by (simp add: padded_to_def converted_sample_def)

text \<open>
  C5, as amended. For every non-empty batch of converted samples (each an id sequence
  followed by its true length), \<^verbatim>\<open>PostPadding.create_batch\<close> returns a
  two-dimensional array whose rows are the samples sorted descending by true length,
  each padded with the \<^verbatim>\<open><PAD>\<close> id between its ids and its length field; all rows
  have one length, the maximum true length of the batch plus one for the length field
  that every row keeps.
\<close>

theorem PostPadding_create_batch_padded:
  fixes h :: store
  assumes "data \<noteq> []"
    and "\<forall>a \<in> set data. a < length h \<and> converted_sample (h ! a)"
    and "pad_token v = Inr pad"
  defines "rows \<equiv> map (\<lambda>a. h ! a) data"
  defines "L \<equiv> Max (set (map last rows))"
  shows "\<exists>array h'. PostPadding_create_batch v h data = Inr (array, h')
     \<and> array = map (\<lambda>row. butlast row @ replicate (nat (L - last row)) pad @ [last row])
                 (sort_key (\<lambda>row. - last row) rows)
     \<and> (\<forall>row \<in> set array. int (length row) = L + 1)
     \<and> sorted (rev (map last array))
     \<and> (\<forall>row \<in> set array. \<forall>j. nat (last row) \<le> j \<and> j < nat L \<longrightarrow> row ! j = pad)"
proof -
  let ?s = "sort_key (\<lambda>row. - last row) rows"
  let ?array = "map (padded_to pad L) ?s"
  let ?f = "\<lambda>row. butlast row @ replicate (nat (L - last row)) pad @ [last row]"
  have conv: "converted_sample r" if "r \<in> set rows" for r
    using that assms(2) by (auto simp: rows_def)
  have res: "PostPadding_create_batch v h data =
      Inr (?array, fold (\<lambda>a h. h[a := padded_to pad L (h ! a)])
                     (sort_key (\<lambda>a. - last (h ! a)) data) h)"
    unfolding rows_def L_def by (rule PostPadding_create_batch_result [OF assms(1-3)])
  have form: "?array = map ?f ?s"
    by (rule map_cong) (simp_all add: padded_to_converted conv)
  have len: "\<forall>row \<in> set ?array. int (length row) = L + 1"
  proof
    fix row assume "row \<in> set ?array"
    then obtain r where r: "r \<in> set rows" "row = padded_to pad L r" by auto
    have "last r \<le> L" unfolding L_def using r(1) by (intro Max_ge) auto
    from length_padded_to_converted [OF conv [OF r(1)] this] show "int (length row) = L + 1"
      by (simp add: r(2))
  qed
  have lasts: "map last ?array = map last ?s" by simp
  have desc: "sorted (rev (map last ?array))"
    unfolding lasts by (rule sorted_descending)
  have cells: "\<forall>row \<in> set ?array. \<forall>j. nat (last row) \<le> j \<and> j < nat L \<longrightarrow> row ! j = pad"
  proof (intro ballI allI impI)
    fix row j assume row: "row \<in> set ?array" and j: "nat (last row) \<le> j \<and> j < nat L"
    from row obtain r where r: "r \<in> set rows" "row = padded_to pad L r" by auto
    have eq: "row = ?f r" by (simp add: r(2) padded_to_converted conv [OF r(1)])
    have "last row = last r" by (simp add: r(2))
    with j have "nat (last r) \<le> j" "j < nat L" by simp_all
    from pad_cells [OF conv [OF r(1)] this] show "row ! j = pad" by (simp add: eq)
  qed
  show ?thesis
    using res form len desc cells by (intro exI conjI) (assumption | simp only:)+
qed

theorem PostPadding_create_batch_padded_witness:
  "[0, 1, 2] \<noteq> ([] :: nat list)
   \<and> list_all (\<lambda>a. a < length [[0, 1], [0, 1, 0, 3], [5, 5, 2::int]]
                   \<and> converted_sample ([[0, 1], [0, 1, 0, 3], [5, 5, 2]] ! a)) [0, 1, 2]
   \<and> pad_token example_vocabulary = Inr 6
   \<and> map_sum id fst
        (PostPadding_create_batch example_vocabulary [[0, 1], [0, 1, 0, 3], [5, 5, 2]] [0, 1, 2])
      = Inr [[0, 1, 0, 3], [5, 5, 6, 2], [0, 6, 6, 1]]"
proof -
  let ?h = "[[0, 1], [0, 1, 0, 3], [5, 5, 2::int]]"
  have ne: "[0, 1, 2] \<noteq> ([] :: nat list)" by simp
  have ok: "\<forall>a \<in> set [0, 1, 2]. a < length ?h \<and> converted_sample (?h ! a)"
    by (simp add: converted_sample_def)
  have pad: "pad_token example_vocabulary = Inr 6"
    by code_simp
  have m: "Max (set (map last (map (\<lambda>a. ?h ! a) [0, 1, 2]))) = 3"
    by simp
  from PostPadding_create_batch_padded [OF ne ok pad]
  obtain array h' where r:
    "PostPadding_create_batch example_vocabulary ?h [0, 1, 2] = Inr (array, h')"
    "array = map (\<lambda>row. butlast row @ replicate (nat (Max (set (map last (map (\<lambda>a. ?h ! a) [0, 1, 2]))) - last row)) 6 @ [last row])
                 (sort_key (\<lambda>row. - last row) (map (\<lambda>a. ?h ! a) [0, 1, 2]))"
    by blast
  have "array = [[0, 1, 0, 3], [5, 5, 6, 2], [0, 6, 6, 1]]"
    unfolding r(2) m by (simp add: numeral_eq_Suc)
  then show ?thesis
    using ok pad r(1) by (simp add: list_all_iff)
qed

text \<open>
  The claim as stated, that the length of the rows equals the maximum true length,
  fails: for the samples of a two-word and a one-word sentence the maximum true length
  is 2 and the rows of the array have 3 cells.
\<close>

theorem PostPadding_row_length_counterexample:
  "map_sum id fst (PostPadding_create_batch example_vocabulary [[0, 1, 2], [1, 1]] [0, 1])
     = Inr [[0, 1, 2], [1, 6, 1]]
   \<and> Max (set (map last [[0, 1, 2], [1, 1::int]])) = 2
   \<and> map length [[0, 1, 2], [1, 6, 1::int]] = [3, 3]"
  by code_simp

subsection \<open>Segments\<close>

lemma py_range_bounds:
  assumes "py_range 0 n step = Inr indices" and "i \<in> set indices" and "0 \<le> n"
  shows "0 \<le> i \<and> i < n \<and> 0 < step"
proof -
  have step: "step \<noteq> 0" using assms(1) by (auto simp: py_range_def)
  show ?thesis
  proof (cases "0 < step")
    case True
    from assms True obtain k where k: "k < nat ((n + step - 1) div step)" "i = int k * step"
      by (auto simp: py_range_def)
    have "int k + 1 \<le> (n + step - 1) div step" using k(1) by linarith
    then have "(int k + 1) * step \<le> (n + step - 1) div step * step"
      using True by (simp add: mult_right_mono)
    moreover have "(n + step - 1) div step * step + (n + step - 1) mod step = n + step - 1"
      by (rule div_mult_mod_eq)
    moreover have "0 \<le> (n + step - 1) mod step"
      using True by simp
    ultimately have "(int k + 1) * step \<le> n + step - 1" by linarith
    then have "int k * step < n" by (simp add: algebra_simps)
    moreover have "0 \<le> int k * step" using True by simp
    ultimately show ?thesis using True k(2) by simp
  next
    case False
    then have neg: "0 < - step" using step by simp
    have "(0 - n - step - 1) div (- step) \<le> (- step - 1) div (- step)"
      using assms(3) neg by (intro zdiv_mono1) simp_all
    also have "(- step - 1) div (- step) = 0"
      using neg by (intro div_pos_pos_trivial) simp_all
    finally have "nat ((0 - n - step - 1) div (- step)) = 0" by simp
    then have "indices = []"
      using assms(1) False step by (simp add: py_range_def)
    then show ?thesis using assms(2) by simp
  qed
qed

lemma segments_of_nonempty:
  assumes "segments_of mss data = Inr segments"
  shows "[] \<notin> set segments"
proof
  assume "[] \<in> set segments"
  from assms obtain indices where ind: "py_range 0 (int (length data)) mss = Inr indices"
    and segs: "segments = map (\<lambda>index. py_slice data index (index + mss)) indices"
    by (auto simp: segments_of_def split: sum.splits)
  from \<open>[] \<in> set segments\<close> obtain i where i: "i \<in> set indices"
    and empty: "py_slice data i (i + mss) = []"
    unfolding segs by auto
  from py_range_bounds [OF ind i] have b: "0 \<le> i" "i < int (length data)" "0 < mss"
    by simp_all
  have "py_slice data i (i + mss) \<noteq> []"
    using b by (auto simp: py_slice_def slice_bounds_def Let_def min_def)
  with empty show False by simp
qed

subsection \<open>PrePadding\<close>

lemma pad_ids_closed:
  "pad_token v = Inr p \<Longrightarrow> pad_ids v n ids = Inr (ids @ replicate (n - length ids) p)"
proof (induction v n ids rule: pad_ids.induct)
  case (1 v n ids)
  show ?case
  proof (cases "length ids < n")
    case True
    have "n - length ids = Suc (n - length (ids @ [p]))" using True by simp
    then have "ids @ replicate (n - length ids) p = (ids @ [p]) @ replicate (n - length (ids @ [p])) p"
      by (simp only: replicate_Suc append_assoc append_Cons append_Nil)
    then show ?thesis
      using True "1.IH" [OF True "1.prems" "1.prems"] "1.prems"
      by (subst pad_ids.simps) simp
  next
    case False
    then show ?thesis by (subst pad_ids.simps) simp
  qed
qed

lemma pad_ids_length:
  "pad_ids v n ids = Inr ids' \<Longrightarrow> n \<le> length ids'"
proof (induction v n ids rule: pad_ids.induct)
  case (1 v n ids)
  show ?case
  proof (cases "length ids < n")
    case True
    from "1.prems" True obtain p where p: "pad_token v = Inr p"
      and r: "pad_ids v n (ids @ [p]) = Inr ids'"
      by (subst (asm) pad_ids.simps) (auto split: sum.splits)
    from "1.IH" [OF True p r] show ?thesis .
  next
    case False
    then show ?thesis using "1.prems" by (subst (asm) pad_ids.simps) auto
  qed
qed

text \<open>What one line becomes when it is no longer than the segment length.\<close>

lemma PrePadding_line_fits:
  assumes "pad_token v = Inr p" and "length (tok line) \<le> n"
  shows "PrePadding_line v tok n line
         = Inr (tok line @ replicate (n - length (tok line)) p @ [int (length (tok line))])"
  using assms by (simp add: PrePadding_line_def pad_ids_closed np_assign_def)

text \<open>Whatever the line, a row that is produced has the segment length plus one.\<close>

lemma PrePadding_line_shape:
  assumes "PrePadding_line v tok n line = Inr row"
  shows "length row = n + 1 \<and> last row = int (length (tok line))"
  using assms
  by (auto simp: PrePadding_line_def np_assign_def split: sum.splits if_splits)

lemma PrePadding_lines_fit:
  assumes "pad_token v = Inr p" and "\<forall>line \<in> set lns. length (tok line) \<le> n"
  shows "PrePadding_lines v tok n lns
         = Inr (map (\<lambda>line. tok line @ replicate (n - length (tok line)) p
                               @ [int (length (tok line))]) lns)"
  using assms(2) by (induction lns) (simp_all add: PrePadding_line_fits [OF assms(1)])

lemma PrePadding_lines_shape:
  assumes "PrePadding_lines v tok n lns = Inr rows"
  shows "list_all2 (\<lambda>line row. length row = n + 1 \<and> last row = int (length (tok line))) lns rows"
  using assms
proof (induction lns arbitrary: rows)
  case Nil
  then show ?case by simp
next
  case (Cons l lns)
  from Cons.prems obtain r rs where r: "PrePadding_line v tok n l = Inr r"
    and rs: "PrePadding_lines v tok n lns = Inr rs" and rows: "rows = r # rs"
    by (auto split: sum.splits)
  show ?case
    using PrePadding_line_shape [OF r] Cons.IH [OF rs] by (simp add: rows)
qed

lemma PrePadding_segments_fit:
  assumes "pad_token v = Inr p"
    and "[] \<notin> set segments"
    and "\<forall>segment \<in> set segments. \<forall>line \<in> set segment.
           length (tok line) \<le> length (tok (hd segment))"
  shows "PrePadding_segments v tok segments
         = Inr (map (\<lambda>segment.
                  map (\<lambda>line. tok line
                         @ replicate (length (tok (hd segment)) - length (tok line)) p
                         @ [int (length (tok line))]) segment) segments)"
  using assms(2,3)
proof (induction segments)
  case Nil
  then show ?case by simp
next
  case (Cons segment rest)
  from Cons.prems(1) obtain first others where seg: "segment = first # others"
    by (cases segment) auto
  have fits: "\<forall>line \<in> set segment. length (tok line) \<le> length (tok first)"
    using Cons.prems(2) by (simp add: seg)
  have ih: "PrePadding_segments v tok rest
         = Inr (map (\<lambda>segment.
                  map (\<lambda>line. tok line
                         @ replicate (length (tok (hd segment)) - length (tok line)) p
                         @ [int (length (tok line))]) segment) rest)"
    using Cons.IH Cons.prems by simp
  have "PrePadding_segments v tok ((first # others) # rest)
         = Inr (map (\<lambda>segment.
                  map (\<lambda>line. tok line
                         @ replicate (length (tok (hd segment)) - length (tok line)) p
                         @ [int (length (tok line))]) segment) ((first # others) # rest))"
    using PrePadding_lines_fit [OF assms(1) fits] ih
    by (simp add: seg del: PrePadding_lines.simps)
  then show ?case by (simp only: seg)
qed

lemma PrePadding_segments_shape:
  assumes "PrePadding_segments v tok segments = Inr chunks"
  shows "list_all2 (\<lambda>segment rows.
           list_all2 (\<lambda>line row. length row = length (tok (hd segment)) + 1
                                 \<and> last row = int (length (tok line))) segment rows)
         segments chunks"
  using assms
proof (induction segments arbitrary: chunks)
  case Nil
  then show ?case by simp
next
  case (Cons segment rest)
  from Cons.prems obtain first others where seg: "segment = first # others"
    by (cases segment) auto
  from Cons.prems obtain rows rowss
    where rows: "PrePadding_lines v tok (length (tok first)) segment = Inr rows"
      and rowss: "PrePadding_segments v tok rest = Inr rowss"
      and chunks: "chunks = rows # rowss"
    unfolding seg by (auto split: sum.splits simp del: PrePadding_lines.simps)
  show ?case
    using PrePadding_lines_shape [OF rows] Cons.IH [OF rowss] by (simp add: chunks seg)
qed

lemma PrePadding_create_batch_sorted:
  assumes "[] \<notin> set rows" and "\<forall>r \<in> set rows. length r = n"
  shows "PrePadding_create_batch rows = Inr (sort_key (\<lambda>x. - last x) rows)"
proof -
  let ?s = "sort_key (\<lambda>x. - last x) rows"
  have "length r = length (hd ?s)" if "r \<in> set ?s" for r
  proof -
    have "?s \<noteq> []" using that by (cases ?s) simp_all
    then have "hd ?s \<in> set ?s" by (rule hd_in_set)
    then show ?thesis using that assms(2) by (simp only: set_sort)
  qed
  then have "np_array ?s = Inr ?s" by (simp add: np_array_def)
  then show ?thesis
    using assms(1) by (simp add: PrePadding_create_batch_def sorted_by_length_def)
qed

text \<open>
  What \<^verbatim>\<open>PrePadding.__call__\<close> returns on the lists it handles, those in which the
  first sentence of every chunk is a longest one of the chunk: for each chunk, rows of
  one length, the number of tokens of the chunk's first sentence plus one. Each row is
  the sentence's ids, the \<^verbatim>\<open><PAD>\<close> id up to that length, and the number of ids
  before padding as the last field. \<^verbatim>\<open>PrePadding.create_batch\<close> on rows of one chunk
  returns the same rows, sorted descending by the last field.
\<close>

lemma PrePadding_first_longest:
  assumes "segments_of max_segment_size data = Inr segments"
    and "pad_token v = Inr pad"
    and "\<forall>segment \<in> set segments. \<forall>line \<in> set segment.
           length (tok line) \<le> length (tok (hd segment))"
  shows "\<exists>chunks. PrePadding_segments v tok segments = Inr chunks
     \<and> PrePadding_call v tok max_segment_size data = Inr (concat chunks)
     \<and> chunks = map (\<lambda>segment.
                  map (\<lambda>line. tok line
                         @ replicate (length (tok (hd segment)) - length (tok line)) pad
                         @ [int (length (tok line))]) segment) segments
     \<and> list_all2 (\<lambda>segment rows.
           list_all2 (\<lambda>line row. length row = length (tok (hd segment)) + 1
                                 \<and> last row = int (length (tok line))) segment rows)
         segments chunks
     \<and> (\<forall>rows \<in> set chunks. \<forall>batch. set batch \<subseteq> set rows \<longrightarrow>
          (\<exists>sorted_batch. PrePadding_create_batch batch = Inr sorted_batch
             \<and> mset sorted_batch = mset batch
             \<and> sorted (rev (map last sorted_batch))))"
proof -
  let ?chunks = "map (\<lambda>segment.
                  map (\<lambda>line. tok line
                         @ replicate (length (tok (hd segment)) - length (tok line)) pad
                         @ [int (length (tok line))]) segment) segments"
  have ne: "[] \<notin> set segments"
    using assms(1) by (rule segments_of_nonempty)
  have segs: "PrePadding_segments v tok segments = Inr ?chunks"
    using assms(2) ne assms(3) by (rule PrePadding_segments_fit)
  have call: "PrePadding_call v tok max_segment_size data = Inr (concat ?chunks)"
    by (simp add: PrePadding_call_def assms(1) segs)
  have shape: "list_all2 (\<lambda>segment rows.
           list_all2 (\<lambda>line row. length row = length (tok (hd segment)) + 1
                                 \<and> last row = int (length (tok line))) segment rows)
         segments ?chunks"
    using segs by (rule PrePadding_segments_shape)
  have batches: "\<forall>rows \<in> set ?chunks. \<forall>batch. set batch \<subseteq> set rows \<longrightarrow>
          (\<exists>sorted_batch. PrePadding_create_batch batch = Inr sorted_batch
             \<and> mset sorted_batch = mset batch
             \<and> sorted (rev (map last sorted_batch)))"
  proof (intro ballI allI impI)
    fix rows batch assume rows: "rows \<in> set ?chunks" and sub: "set batch \<subseteq> set rows"
    from rows obtain segment where rows_eq: "rows = map (\<lambda>line. tok line
                         @ replicate (length (tok (hd segment)) - length (tok line)) pad
                         @ [int (length (tok line))]) segment"
      and seg: "segment \<in> set segments" by auto
    have fit: "\<forall>line \<in> set segment. length (tok line) \<le> length (tok (hd segment))"
      using assms(3) seg by simp
    have len: "\<forall>r \<in> set batch. length r = length (tok (hd segment)) + 1"
      using sub fit unfolding rows_eq by auto
    then have "[] \<notin> set batch" by auto
    from PrePadding_create_batch_sorted [OF this len]
    have "PrePadding_create_batch batch = Inr (sort_key (\<lambda>x. - last x) batch)" .
    moreover have "mset (sort_key (\<lambda>x. - last x) batch) = mset batch" by simp
    moreover have "sorted (rev (map last (sort_key (\<lambda>x. - last x) batch)))"
      by (rule sorted_descending)
    ultimately show "\<exists>sorted_batch. PrePadding_create_batch batch = Inr sorted_batch
             \<and> mset sorted_batch = mset batch
             \<and> sorted (rev (map last sorted_batch))" by blast
  qed
  show ?thesis
    using segs call shape batches by (intro exI [of _ ?chunks] conjI) (assumption | rule refl)+
qed

lemma PrePadding_first_longest_example:
  "segments_of 2 [''hello world'', ''hello'', ''x y z'']
     = Inr [[''hello world'', ''hello''], [''x y z'']]
   \<and> pad_token example_vocabulary = Inr 6
   \<and> list_all (\<lambda>segment. list_all (\<lambda>line.
          length (ids_from_sentence example_vocabulary line)
            \<le> length (ids_from_sentence example_vocabulary (hd segment))) segment)
        [[''hello world'', ''hello''], [''x y z'']]
   \<and> PrePadding_call example_vocabulary (ids_from_sentence example_vocabulary) 2
        [''hello world'', ''hello'', ''x y z'']
     = Inr [[0, 1, 2], [0, 6, 1], [5, 5, 5, 3]]
   \<and> PrePadding_create_batch [[0, 6, 1], [0, 1, 2]] = Inr [[0, 1, 2], [0, 6, 1]]"
proof -
  let ?tok = "ids_from_sentence example_vocabulary"
  have s: "segments_of 2 [''hello world'', ''hello'', ''x y z'']
             = Inr [[''hello world'', ''hello''], [''x y z'']]"
    by code_simp
  have p: "pad_token example_vocabulary = Inr 6"
    by code_simp
  have t: "?tok ''hello world'' = [0, 1]" "?tok ''hello'' = [0]" "?tok ''x y z'' = [5, 5, 5]"
    by code_simp+
  have h: "\<forall>segment \<in> set [[''hello world'', ''hello''], [''x y z'']]. \<forall>line \<in> set segment.
             length (?tok line) \<le> length (?tok (hd segment))"
    by (simp add: t)
  from PrePadding_first_longest [OF s p h]
  obtain chunks where c:
    "PrePadding_call example_vocabulary ?tok 2 [''hello world'', ''hello'', ''x y z'']
       = Inr (concat chunks)"
    "chunks = map (\<lambda>segment.
                  map (\<lambda>line. ?tok line
                         @ replicate (length (?tok (hd segment)) - length (?tok line)) 6
                         @ [int (length (?tok line))]) segment)
                [[''hello world'', ''hello''], [''x y z'']]"
    by blast
  have rows: "concat chunks = [[0, 1, 2], [0, 6, 1], [5, 5, 5, 3]]"
    unfolding c(2) by (simp add: t)
  have b: "PrePadding_create_batch [[0, 6, 1], [0, 1, 2]] = Inr [[0, 1, 2], [0, 6, 1]]"
    by code_simp
  show ?thesis
    using s p h c(1) rows b by (simp add: list_all_iff)
qed

text \<open>
  C2. The claim is that for every list of raw sentences \<^verbatim>\<open>PrePadding.__call__\<close>
  produces, within each chunk, samples of one length, the shorter ones padded with the
  \<^verbatim>\<open><PAD>\<close> id; the docstrings of the class and of \<^verbatim>\<open>__call__\<close> say the
  sentences are padded to the length of the longest sentence of the segment. On the
  chunk of a one-word sentence followed by a two-word sentence the length is taken from
  the first sentence, the two ids of the second do not fit the array of that length,
  and the assignment raises \<^verbatim>\<open>ValueError\<close>: no sample is produced.
\<close>

theorem PrePadding_longer_sentence_raises:
  "segments_of 2 [''hello'', ''hello world''] = Inr [[''hello'', ''hello world'']]
   \<and> map (ids_from_sentence example_vocabulary) [''hello'', ''hello world''] = [[0], [0, 1]]
   \<and> PrePadding_call example_vocabulary (ids_from_sentence example_vocabulary) 2
        [''hello'', ''hello world''] = Inl ValueError"
  by code_simp

section \<open>Properties of MemoryInput\<close>

subsection \<open>Copies are fresh\<close>

lemma deepcopy_rows_distinct:
  assumes "distinct as" and "\<forall>a \<in> set as. a < length h \<and> map_of memo a = None"
  shows "deepcopy_rows h memo as
         = ([length h..<length h + length as], h @ map (\<lambda>a. h ! a) as)"
  using assms
proof (induction as arbitrary: h memo)
  case Nil
  then show ?case by simp
next
  case (Cons a as)
  let ?h1 = "h @ [h ! a]"
  have d: "distinct as" using Cons.prems(1) by simp
  have ok: "\<forall>a' \<in> set as. a' < length ?h1 \<and> map_of ((a, length h) # memo) a' = None"
    using Cons.prems by auto
  have vals: "map (\<lambda>a'. ?h1 ! a') as = map (\<lambda>a'. h ! a') as"
    using Cons.prems(2) by (simp add: nth_append)
  have idx: "length h # [length ?h1..<length ?h1 + length as]
             = [length h..<length h + length (a # as)]"
    by (simp add: upt_rec [of "length h"] del: upt_Suc)
  show ?case
    using Cons.IH [OF d ok] Cons.prems(2) vals idx
    by (simp add: alloc_def del: upt_Suc)
qed

lemma deepcopy_distinct:
  assumes "distinct as" and "\<forall>a \<in> set as. a < length h"
  shows "deepcopy h as = ([length h..<length h + length as], h @ map (\<lambda>a. h ! a) as)"
  unfolding deepcopy_def using assms by (intro deepcopy_rows_distinct) simp_all

subsection \<open>Padding distinct rows\<close>

lemma pad_rows_distinct:
  assumes "distinct as" and "\<forall>a \<in> set as. a < length h"
  shows "case pad_all v bl (map (\<lambda>a. h ! a) as) of
           Inl e \<Rightarrow> pad_rows v bl h as = Inl e
         | Inr rs \<Rightarrow> \<exists>h'. pad_rows v bl h as = Inr h' \<and> length h' = length h
                      \<and> map (\<lambda>a. h' ! a) as = rs
                      \<and> (\<forall>b. b \<notin> set as \<longrightarrow> h' ! b = h ! b)"
  using assms
proof (induction as arbitrary: h)
  case Nil
  then show ?case by simp
next
  case (Cons a as)
  show ?case
  proof (cases "pad_row v bl (h ! a)")
    case (Inl e)
    then show ?thesis by simp
  next
    case (Inr r)
    let ?h1 = "h[a := r]"
    have d: "distinct as" and na: "a \<notin> set as" using Cons.prems(1) by simp_all
    have ok: "\<forall>a' \<in> set as. a' < length ?h1" using Cons.prems(2) by simp
    have same: "map (\<lambda>a'. ?h1 ! a') as = map (\<lambda>a'. h ! a') as"
      using na by (intro map_cong refl) (metis nth_list_update_neq)
    note ih = Cons.IH [OF d ok, unfolded same]
    show ?thesis
    proof (cases "pad_all v bl (map (\<lambda>a. h ! a) as)")
      case (Inl e)
      then show ?thesis using ih Inr by simp
    next
      case rs: (Inr rs)
      from ih rs obtain h' where h': "pad_rows v bl ?h1 as = Inr h'" "length h' = length h"
        "map (\<lambda>a. h' ! a) as = rs" "\<forall>b. b \<notin> set as \<longrightarrow> h' ! b = ?h1 ! b"
        by auto
      have "h' ! a = r"
        using h'(4) na Cons.prems(2) by simp
      moreover have "\<forall>b. b \<notin> set (a # as) \<longrightarrow> h' ! b = h ! b"
        using h'(4) by (auto simp: nth_list_update)
      ultimately show ?thesis
        using Inr rs h'(1,2,3) by simp
    qed
  qed
qed

lemma pad_all_results:
  "pad_all v bl rows = Inr rs \<Longrightarrow>
   rs = map (\<lambda>row. case pad_row v bl row of Inl e \<Rightarrow> row | Inr row' \<Rightarrow> row') rows"
  by (induction rows arbitrary: rs) (auto split: sum.splits)

subsection \<open>A batch as a function of the values of its rows\<close>

lemma PostPadding_create_batch_values:
  fixes h :: store
  assumes "distinct as" and "\<forall>a \<in> set as. a < length h"
  defines "rows \<equiv> map (\<lambda>a. h ! a) as"
  shows "case PostPadding_batch v rows of
           Inl e \<Rightarrow> PostPadding_create_batch v h as = Inl e
         | Inr array \<Rightarrow>
             \<exists>h'. PostPadding_create_batch v h as = Inr (array, h') \<and> length h' = length h
               \<and> map (\<lambda>a. h' ! a) as = map (batch_update PostPadding v rows) rows
               \<and> (\<forall>b. b \<notin> set as \<longrightarrow> h' ! b = h ! b)"
proof (cases "[] \<in> set rows")
  case True
  then obtain a where "a \<in> set as" "h ! a = []" by (auto simp: rows_def)
  then have "\<exists>a \<in> set as. h ! a = []" by blast
  then show ?thesis
    using True by (simp add: PostPadding_batch_def PostPadding_create_batch_def)
next
  case False
  then have nonempty: "\<not> (\<exists>a \<in> set as. h ! a = [])" by (force simp: rows_def)
  let ?sorted = "sort_key (\<lambda>a. - last (h ! a)) as"
  let ?srows = "sort_key (\<lambda>x. - last x) rows"
  have srows: "map (\<lambda>a. h ! a) ?sorted = ?srows"
    by (simp add: rows_def sort_key_map)
  show ?thesis
  proof (cases ?sorted)
    case Nil
    then have "?srows = []" using srows by simp
    then show ?thesis
      using False nonempty Nil
      by (simp add: PostPadding_batch_def PostPadding_create_batch_def)
  next
    case (Cons first others)
    have srows_eq: "?srows = (h ! first) # map (\<lambda>a. h ! a) others"
      using srows by (simp add: Cons)
    let ?bl = "last (h ! first)"
    have d: "distinct ?sorted" using assms(1) by simp
    have ok: "\<forall>a \<in> set ?sorted. a < length h" using assms(2) by simp
    note pr = pad_rows_distinct [OF d ok, of v ?bl, unfolded srows]
    have create: "PostPadding_create_batch v h as =
        (case pad_rows v ?bl h (first # others) of
           Inl e \<Rightarrow> Inl e
         | Inr h' \<Rightarrow>
             (case np_array (map (\<lambda>a. h' ! a) (first # others)) of
                Inl e \<Rightarrow> Inl e
              | Inr array \<Rightarrow> Inr (array, h')))"
      using nonempty by (simp add: PostPadding_create_batch_def Cons del: pad_rows.simps)
    have batch: "PostPadding_batch v rows =
        (case pad_all v ?bl ?srows of Inl e \<Rightarrow> Inl e | Inr padded \<Rightarrow> np_array padded)"
      using False by (simp add: PostPadding_batch_def srows_eq)
    show ?thesis
    proof (cases "pad_all v ?bl ?srows")
      case (Inl e)
      then have "pad_rows v ?bl h (first # others) = Inl e"
        using pr by (simp add: Cons del: pad_rows.simps)
      then show ?thesis using Inl by (simp add: create batch del: pad_rows.simps)
    next
      case (Inr rs)
      from pr Inr obtain h' where h': "pad_rows v ?bl h ?sorted = Inr h'" "length h' = length h"
        "map (\<lambda>a. h' ! a) ?sorted = rs" "\<forall>b. b \<notin> set ?sorted \<longrightarrow> h' ! b = h ! b"
        by auto
      have rs: "rs = map (\<lambda>row. case pad_row v ?bl row of Inl e \<Rightarrow> row | Inr row' \<Rightarrow> row') ?srows"
        using Inr by (rule pad_all_results)
      have upd: "batch_update PostPadding v rows row
                 = (case pad_row v ?bl row of Inl e \<Rightarrow> row | Inr row' \<Rightarrow> row')" for row
        by (simp add: batch_update_def srows_eq)
      have "map (\<lambda>a. h' ! a) ?sorted = map (\<lambda>a. batch_update PostPadding v rows (h ! a)) ?sorted"
        unfolding h'(3) rs srows [symmetric] by (simp add: upd)
      then have "\<forall>a \<in> set ?sorted. h' ! a = batch_update PostPadding v rows (h ! a)"
        by (simp only: map_eq_conv)
      then have post: "map (\<lambda>a. h' ! a) as = map (batch_update PostPadding v rows) rows"
        by (simp add: rows_def)
      have frame: "\<forall>b. b \<notin> set as \<longrightarrow> h' ! b = h ! b"
        using h'(4) by simp
      have padded: "pad_rows v ?bl h (first # others) = Inr h'"
        "map (\<lambda>a. h' ! a) (first # others) = rs"
        using h'(1,3) by (simp_all only: Cons)
      show ?thesis
      proof (cases "np_array rs")
        case (Inl e)
        then show ?thesis
          using Inr padded by (simp add: create batch del: pad_rows.simps)
      next
        case arr: (Inr array)
        have "PostPadding_create_batch v h as = Inr (array, h')"
          using padded arr by (simp add: create del: pad_rows.simps)
        moreover have "PostPadding_batch v rows = Inr array"
          using Inr arr by (simp add: batch)
        ultimately show ?thesis
          using h'(2) post frame by simp
      qed
    qed
  qed
qed

lemma create_batch_values:
  fixes h :: store
  assumes "distinct as" and "\<forall>a \<in> set as. a < length h"
  defines "rows \<equiv> map (\<lambda>a. h ! a) as"
  shows "case batch_values padding v rows of
           Inl e \<Rightarrow> create_batch padding v h as = Inl e
         | Inr array \<Rightarrow>
             \<exists>h'. create_batch padding v h as = Inr (array, h') \<and> length h' = length h
               \<and> map (\<lambda>a. h' ! a) as = map (batch_update padding v rows) rows
               \<and> (\<forall>b. b \<notin> set as \<longrightarrow> h' ! b = h ! b)"
proof (cases padding)
  case PostPadding
  have "batch_values padding v rows = PostPadding_batch v rows"
    and "create_batch padding v h as = PostPadding_create_batch v h as"
    by (simp_all add: PostPadding batch_values_def create_batch_def)
  then show ?thesis
    using PostPadding_create_batch_values [OF assms(1,2), of v]
    unfolding rows_def PostPadding
    by (cases "PostPadding_batch v (map (\<lambda>a. h ! a) as)") simp_all
next
  case PrePadding
  have "map (batch_update PrePadding v rows) rows = rows"
    by (rule map_idI) (simp add: batch_update_def)
  then show ?thesis
    by (simp add: PrePadding batch_values_def create_batch_def rows_def split: sum.splits)
qed

subsection \<open>Slices\<close>

lemma py_slice_take_drop:
  "slice_bounds (length xs) i j = (lo, m) \<Longrightarrow> py_slice xs i j = take m (drop lo xs)"
  by (simp add: py_slice_def)

lemma py_slice_map: "py_slice (map f xs) i j = map f (py_slice xs i j)"
  by (simp add: py_slice_def take_map drop_map split: prod.splits)

lemma set_py_slice: "set (py_slice xs i j) \<subseteq> set xs"
  unfolding py_slice_def
  by (auto split: prod.splits dest: in_set_takeD in_set_dropD)

lemma distinct_py_slice: "distinct xs \<Longrightarrow> distinct (py_slice xs i j)"
  by (simp add: py_slice_def split: prod.splits)

lemma split_at_slice: "xs = take lo xs @ take m (drop lo xs) @ drop (lo + m) xs"
proof -
  have "drop (lo + m) xs = drop m (drop lo xs)"
    by (simp add: add.commute)
  then have "take m (drop lo xs) @ drop (lo + m) xs = drop lo xs"
    by (simp only: append_take_drop_id)
  then show ?thesis
    by (simp only: append_take_drop_id)
qed

lemma segments_of_map:
  "segments_of mss (map f xs) = map_sum id (map (map f)) (segments_of mss xs)"
  by (simp add: segments_of_def py_slice_map split: sum.splits)

lemma segments_of_slices:
  assumes "segments_of mss xs = Inr segments" and "segment \<in> set segments"
  shows "set segment \<subseteq> set xs" and "distinct xs \<Longrightarrow> distinct segment"
proof -
  from assms obtain i where "segment = py_slice xs i (i + mss)"
    by (auto simp: segments_of_def split: sum.splits)
  then show "set segment \<subseteq> set xs" and "distinct xs \<Longrightarrow> distinct segment"
    by (simp_all add: set_py_slice distinct_py_slice)
qed

subsection \<open>The batches of a segment\<close>

lemma batches_of_segment_values:
  fixes h :: store
  assumes "distinct seg" and "\<forall>a \<in> set seg. n \<le> a \<and> a < length h"
  shows "\<exists>h'. batches_of_segment padding v bs h seg idxs
              = (fst (segment_batches padding v bs (map (\<lambda>a. h ! a) seg) idxs),
                 snd (segment_batches padding v bs (map (\<lambda>a. h ! a) seg) idxs), h')
            \<and> length h' = length h \<and> take n h' = take n h"
  using assms(2)
proof (induction idxs arbitrary: h)
  case Nil
  then show ?case by simp
next
  case (Cons i idxs)
  obtain lo m where b: "slice_bounds (length seg) i (i + bs) = (lo, m)"
    by (cases "slice_bounds (length seg) i (i + bs)")
  let ?A = "take lo seg" and ?S = "take m (drop lo seg)" and ?C = "drop (lo + m) seg"
  let ?rows = "map (\<lambda>a. h ! a) seg"
  have slice: "py_slice seg i (i + bs) = ?S"
    using b by (rule py_slice_take_drop)
  have rows_slice: "py_slice ?rows i (i + bs) = map (\<lambda>a. h ! a) ?S"
    by (simp add: py_slice_map slice)
  have seg: "seg = ?A @ ?S @ ?C" by (rule split_at_slice)
  have "distinct (?A @ ?S @ ?C)" using assms(1) seg by simp
  then have dS: "distinct ?S" and disjA: "set ?A \<inter> set ?S = {}" and disjC: "set ?C \<inter> set ?S = {}"
    by auto
  have sub: "set ?S \<subseteq> set seg"
    by (auto dest: in_set_takeD in_set_dropD)
  have okS: "\<forall>a \<in> set ?S. a < length h" using Cons.prems sub by auto
  note cb = create_batch_values [OF dS okS, of padding v]
  show ?case
  proof (cases "batch_values padding v (map (\<lambda>a. h ! a) ?S)")
    case (Inl e)
    then have "create_batch padding v h ?S = Inl e" using cb by simp
    then show ?thesis using Inl by (simp add: slice rows_slice)
  next
    case (Inr array)
    let ?g = "batch_update padding v (map (\<lambda>a. h ! a) ?S)"
    from cb Inr obtain h1 where h1: "create_batch padding v h ?S = Inr (array, h1)"
      "length h1 = length h" "map (\<lambda>a. h1 ! a) ?S = map ?g (map (\<lambda>a. h ! a) ?S)"
      "\<forall>b. b \<notin> set ?S \<longrightarrow> h1 ! b = h ! b"
      by auto
    have A: "map (\<lambda>a. h1 ! a) ?A = map (\<lambda>a. h ! a) ?A"
      using disjA h1(4) by (intro map_cong refl) auto
    have C: "map (\<lambda>a. h1 ! a) ?C = map (\<lambda>a. h ! a) ?C"
      using disjC h1(4) by (intro map_cong refl) auto
    have "map (\<lambda>a. h1 ! a) seg
          = map (\<lambda>a. h1 ! a) ?A @ map (\<lambda>a. h1 ! a) ?S @ map (\<lambda>a. h1 ! a) ?C"
      by (subst seg) (simp only: map_append)
    also have "\<dots> = map (\<lambda>a. h ! a) ?A @ map ?g (map (\<lambda>a. h ! a) ?S) @ map (\<lambda>a. h ! a) ?C"
      by (simp only: A C h1(3))
    also have "\<dots> = update_slice ?g ?rows i (i + bs)"
      using b by (simp add: update_slice_def take_map drop_map)
    finally have vals1: "map (\<lambda>a. h1 ! a) seg = update_slice ?g ?rows i (i + bs)" .
    have ok1: "\<forall>a \<in> set seg. n \<le> a \<and> a < length h1"
      using Cons.prems h1(2) by simp
    from Cons.IH [OF ok1] obtain h' where h':
      "batches_of_segment padding v bs h1 seg idxs
         = (fst (segment_batches padding v bs (map (\<lambda>a. h1 ! a) seg) idxs),
            snd (segment_batches padding v bs (map (\<lambda>a. h1 ! a) seg) idxs), h')"
      "length h' = length h1" "take n h' = take n h1"
      by blast
    have low: "take n h1 = take n h"
    proof (rule nth_equalityI)
      show "length (take n h1) = length (take n h)" by (simp add: h1(2))
      fix k assume "k < length (take n h1)"
      then have k: "k < n" by simp
      have "k \<notin> set ?S"
      proof
        assume "k \<in> set ?S"
        then have "k \<in> set seg" using sub by blast
        then have "n \<le> k" using Cons.prems by blast
        with k show False by simp
      qed
      then show "take n h1 ! k = take n h ! k" using h1(4) k by simp
    qed
    show ?thesis
      using h1(1,2) h' low Inr
      by (simp add: slice rows_slice vals1 split: prod.splits)
  qed
qed

subsection \<open>A pass over the stored data\<close>

lemma nth_below_take:
  assumes "take n h' = take n h" and "a < n"
  shows "h' ! a = h ! a"
  using assms by (metis nth_take)

lemma batch_generator_loop_values:
  fixes h :: store
  assumes "mi_shuffle mi = False"
    and "\<forall>slice \<in> set slices. distinct slice \<and> (\<forall>a \<in> set slice. a < n)"
    and "n \<le> length h"
  shows "\<exists>h'. batch_generator_loop shuffle_fn mi h slices
              = (fst (pass_batches (mi_padder mi) (mi_vocabulary mi) (mi_batch_size mi)
                        (map (map (\<lambda>a. h ! a)) slices)),
                 snd (pass_batches (mi_padder mi) (mi_vocabulary mi) (mi_batch_size mi)
                        (map (map (\<lambda>a. h ! a)) slices)), h')
            \<and> length h \<le> length h' \<and> take n h' = take n h"
  using assms(2,3)
proof (induction slices arbitrary: h)
  case Nil
  then show ?case by simp
next
  case (Cons slice rest)
  let ?pt = "mi_padder mi" and ?v = "mi_vocabulary mi" and ?bs = "mi_batch_size mi"
  let ?vals = "map (\<lambda>a. h ! a) slice"
  let ?A = "[length h..<length h + length slice]"
  let ?h1 = "h @ ?vals"
  have d: "distinct slice" and ok: "\<forall>a \<in> set slice. a < length h"
    using Cons.prems by auto
  have dc: "deepcopy h slice = (?A, ?h1)"
    using d ok by (rule deepcopy_distinct)
  have dA: "distinct ?A" by simp
  have okA: "\<forall>a \<in> set ?A. length h \<le> a \<and> a < length ?h1" by simp
  have valsA: "map (\<lambda>a. ?h1 ! a) ?A = ?vals"
    by (rule nth_equalityI) (simp_all add: nth_append)
  have lenA: "length ?A = length ?vals" by simp
  have low1: "take n ?h1 = take n h" using Cons.prems(2) by simp
  show ?case
  proof (cases "py_range 0 (int (length ?vals) - ?bs + 1) ?bs")
    case (Inl e)
    then show ?thesis
      using low1 assms(1) by (simp add: dc)
  next
    case (Inr idxs)
    obtain B E where sb: "segment_batches ?pt ?v ?bs ?vals idxs = (B, E)"
      by (cases "segment_batches ?pt ?v ?bs ?vals idxs")
    from batches_of_segment_values [OF dA okA, of ?pt ?v ?bs idxs, unfolded valsA]
    obtain h2 where h2: "batches_of_segment ?pt ?v ?bs ?h1 ?A idxs = (B, E, h2)"
      "length h2 = length ?h1" "take (length h) h2 = take (length h) ?h1"
      unfolding sb by auto
    have "take n (take (length h) h2) = take n (take (length h) ?h1)"
      by (simp only: h2(3))
    then have low2: "take n h2 = take n h"
      using Cons.prems(2) by (simp add: min_def)
    have len2: "length h \<le> length h2" by (simp add: h2(2))
    show ?thesis
    proof (cases E)
      case (Some e)
      then show ?thesis
        using Inr h2(1) sb low2 len2 assms(1)
        by (simp add: dc)
    next
      case None
      have rest: "\<forall>slice \<in> set rest. distinct slice \<and> (\<forall>a \<in> set slice. a < n)"
        using Cons.prems(1) by simp
      have n2: "n \<le> length h2" using Cons.prems(2) len2 by simp
      have same: "map (map (\<lambda>a. h2 ! a)) rest = map (map (\<lambda>a. h ! a)) rest"
        using rest low2 by (intro map_cong refl) (auto intro: nth_below_take)
      obtain B2 E2 where pb:
        "pass_batches ?pt ?v ?bs (map (map (\<lambda>a. h ! a)) rest) = (B2, E2)"
        by (cases "pass_batches ?pt ?v ?bs (map (map (\<lambda>a. h ! a)) rest)")
      from Cons.IH [OF rest n2, unfolded same pb] obtain h3 where h3:
        "batch_generator_loop shuffle_fn mi h2 rest = (B2, E2, h3)"
        "length h2 \<le> length h3" "take n h3 = take n h2"
        by auto
      show ?thesis
        using Inr None h2(1) sb pb h3 low2 len2 assms(1)
        by (simp add: dc)
    qed
  qed
qed

lemma batch_generator_values:
  fixes h :: store
  assumes "mi_shuffle mi = False"
    and "distinct (mi_data mi)"
    and "\<forall>a \<in> set (mi_data mi). a < length h"
  shows "\<exists>h'. batch_generator shuffle_fn mi h
              = (fst (batches_of_rows (mi_padder mi) (mi_vocabulary mi) (mi_batch_size mi)
                        (mi_max_segment_size mi) (map (\<lambda>a. h ! a) (mi_data mi))),
                 snd (batches_of_rows (mi_padder mi) (mi_vocabulary mi) (mi_batch_size mi)
                        (mi_max_segment_size mi) (map (\<lambda>a. h ! a) (mi_data mi))), h')
            \<and> length h \<le> length h' \<and> take (length h) h' = h"
proof (cases "segments_of (mi_max_segment_size mi) (mi_data mi)")
  case (Inl e)
  then show ?thesis
    by (simp add: batch_generator_def batches_of_rows_def segments_of_map)
next
  case (Inr slices)
  have ok: "\<forall>slice \<in> set slices. distinct slice \<and> (\<forall>a \<in> set slice. a < length h)"
    using segments_of_slices [OF Inr] assms(2,3) by blast
  from batch_generator_loop_values [OF assms(1) ok order_refl, of shuffle_fn]
  show ?thesis
    using Inr by (simp add: batch_generator_def batches_of_rows_def segments_of_map)
qed

subsection \<open>The instance after construction\<close>

lemma alloc_rows_fresh:
  "alloc_rows h rows = ([length h..<length h + length rows], h @ rows)"
proof (induction rows arbitrary: h)
  case Nil
  then show ?case by simp
next
  case (Cons row rows)
  have "length h # [Suc (length h)..<Suc (length h + length rows)]
        = [length h..<Suc (length h + length rows)]"
    by (simp add: upt_rec [of "length h"] del: upt_Suc)
  then show ?case
    by (simp add: Cons.IH alloc_def del: upt_Suc)
qed

lemma MemoryInput_init_data:
  assumes "MemoryInput_init tok fs h0 mss bs shuffle cuda data_path v padding = Inr (mi, h)"
  shows "distinct (mi_data mi)" and "\<forall>a \<in> set (mi_data mi). a < length h"
    and "mi_shuffle mi = shuffle" and "mi_batch_size mi = bs"
    and "mi_max_segment_size mi = mss" and "mi_padder mi = padding" and "mi_vocabulary mi = v"
    and "\<exists>lns. Monolingual_load_data fs data_path = Inr lns
           \<and> (case padding of
                 PostPadding \<Rightarrow> PostPadding_call tok mss lns
               | PrePadding \<Rightarrow> PrePadding_call v tok mss lns)
             = Inr (map (\<lambda>a. h ! a) (mi_data mi))"
proof -
  from assms obtain lns rows where lns: "Monolingual_load_data fs data_path = Inr lns"
    and rows: "(case padding of
                 PostPadding \<Rightarrow> PostPadding_call tok mss lns
               | PrePadding \<Rightarrow> PrePadding_call v tok mss lns) = Inr rows"
    and mi: "mi = \<lparr> mi_cuda = cuda, mi_shuffle = shuffle, mi_batch_size = bs,
                     mi_max_segment_size = mss, mi_padder = padding,
                     mi_vocabulary = v, mi_data = [length h0..<length h0 + length rows] \<rparr>"
    and h: "h = h0 @ rows"
    by (auto simp: MemoryInput_init_def alloc_rows_fresh split: sum.splits)
  show "distinct (mi_data mi)" and "\<forall>a \<in> set (mi_data mi). a < length h"
    and "mi_shuffle mi = shuffle" and "mi_batch_size mi = bs"
    and "mi_max_segment_size mi = mss" and "mi_padder mi = padding" and "mi_vocabulary mi = v"
    by (simp_all add: mi h)
  have "map (\<lambda>a. h ! a) (mi_data mi) = rows"
    unfolding mi h by (rule nth_equalityI) (simp_all add: nth_append)
  then show "\<exists>lns. Monolingual_load_data fs data_path = Inr lns
           \<and> (case padding of
                 PostPadding \<Rightarrow> PostPadding_call tok mss lns
               | PrePadding \<Rightarrow> PrePadding_call v tok mss lns)
             = Inr (map (\<lambda>a. h ! a) (mi_data mi))"
    using lns rows by simp
qed

subsection \<open>Every pass yields the same batches\<close>

lemma pass_keeps_data:
  fixes h :: store
  assumes "mi_shuffle mi = False"
    and "distinct (mi_data mi)"
    and "\<forall>a \<in> set (mi_data mi). a < length h"
  shows "yielded shuffle_fn mi h
         = batches_of_rows (mi_padder mi) (mi_vocabulary mi) (mi_batch_size mi)
             (mi_max_segment_size mi) (map (\<lambda>a. h ! a) (mi_data mi))"
    and "map (\<lambda>a. store_after shuffle_fn mi h ! a) (mi_data mi) = map (\<lambda>a. h ! a) (mi_data mi)"
    and "\<forall>a \<in> set (mi_data mi). a < length (store_after shuffle_fn mi h)"
proof -
  from batch_generator_values [OF assms, where shuffle_fn = shuffle_fn] obtain h' where h':
    "batch_generator shuffle_fn mi h
       = (fst (batches_of_rows (mi_padder mi) (mi_vocabulary mi) (mi_batch_size mi)
                 (mi_max_segment_size mi) (map (\<lambda>a. h ! a) (mi_data mi))),
          snd (batches_of_rows (mi_padder mi) (mi_vocabulary mi) (mi_batch_size mi)
                 (mi_max_segment_size mi) (map (\<lambda>a. h ! a) (mi_data mi))), h')"
    "length h \<le> length h'" "take (length h) h' = h"
    by blast
  show "yielded shuffle_fn mi h
         = batches_of_rows (mi_padder mi) (mi_vocabulary mi) (mi_batch_size mi)
             (mi_max_segment_size mi) (map (\<lambda>a. h ! a) (mi_data mi))"
    by (simp add: yielded_def h'(1))
  have after: "store_after shuffle_fn mi h = h'"
    by (simp add: store_after_def h'(1))
  have "h' ! a = h ! a" if "a \<in> set (mi_data mi)" for a
  proof -
    have "a < length h" using that assms(3) by simp
    then have "take (length h) h' ! a = h' ! a" by simp
    then show ?thesis by (simp add: h'(3))
  qed
  then show "map (\<lambda>a. store_after shuffle_fn mi h ! a) (mi_data mi) = map (\<lambda>a. h ! a) (mi_data mi)"
    unfolding after by (intro map_cong refl)
  show "\<forall>a \<in> set (mi_data mi). a < length (store_after shuffle_fn mi h)"
    unfolding after using assms(3) h'(2) by auto
qed

lemma passes_keep_data:
  fixes h :: store
  assumes "mi_shuffle mi = False"
    and "distinct (mi_data mi)"
    and "\<forall>a \<in> set (mi_data mi). a < length h"
  shows "map (\<lambda>a. (store_after shuffle_fn mi ^^ k) h ! a) (mi_data mi)
           = map (\<lambda>a. h ! a) (mi_data mi)
       \<and> (\<forall>a \<in> set (mi_data mi). a < length ((store_after shuffle_fn mi ^^ k) h))"
proof (induction k)
  case 0
  then show ?case using assms(3) by simp
next
  case (Suc k)
  let ?hk = "(store_after shuffle_fn mi ^^ k) h"
  have ok: "\<forall>a \<in> set (mi_data mi). a < length ?hk" using Suc by simp
  from pass_keeps_data(2,3) [OF assms(1,2) ok, where shuffle_fn = shuffle_fn] Suc
  show ?case by simp
qed

subsection \<open>The scenario of five lines\<close>

lemma PostPadding_batch_converted:
  assumes "rows \<noteq> []" and "\<forall>r \<in> set rows. converted_sample r" and "pad_token v = Inr pad"
  shows "\<exists>array. PostPadding_batch v rows = Inr array \<and> length array = length rows"
proof -
  let ?as = "[0..<length rows]"
  have rows: "map (\<lambda>a. rows ! a) ?as = rows" by (rule map_nth)
  have ne: "?as \<noteq> []" using assms(1) by simp
  have ok: "\<forall>a \<in> set ?as. a < length rows \<and> converted_sample (rows ! a)"
    using assms(2) by simp
  have ok': "\<forall>a \<in> set ?as. a < length rows" by simp
  note res = PostPadding_create_batch_result [OF ne ok assms(3), unfolded rows]
  note val = PostPadding_create_batch_values [OF distinct_upt ok', of v, unfolded rows]
  show ?thesis
  proof (cases "PostPadding_batch v rows")
    case (Inl e)
    then show ?thesis using res val by simp
  next
    case (Inr array)
    then have "array = map (padded_to pad (Max (set (map last rows)))) (sort_key (\<lambda>x. - last x) rows)"
      using res val by auto
    then show ?thesis using Inr by simp
  qed
qed

lemma segments_of_two_of_five:
  "segments_of 2 [r0, r1, r2, r3, r4] = Inr [[r0, r1], [r2, r3], [r4]]"
  by (simp add: segments_of_def py_range_def py_slice_def slice_bounds_def upt_rec numeral_eq_Suc)

lemma two_batches_of_five_rows:
  assumes "\<exists>b1. batch_values padding v [r0, r1] = Inr b1 \<and> length b1 = 2"
    and "\<exists>b2. batch_values padding v [r2, r3] = Inr b2 \<and> length b2 = 2"
  shows "\<exists>b1 b2. batches_of_rows padding v 2 2 [r0, r1, r2, r3, r4] = ([b1, b2], None)
            \<and> length b1 = 2 \<and> length b2 = 2"
proof -
  from assms obtain b1 b2 where b: "batch_values padding v [r0, r1] = Inr b1" "length b1 = 2"
    "batch_values padding v [r2, r3] = Inr b2" "length b2 = 2"
    by blast
  have slice: "py_slice [x, y] 0 2 = [x, y]" for x y :: "int list"
    by (simp add: py_slice_def slice_bounds_def)
  have "batches_of_rows padding v 2 2 [r0, r1, r2, r3, r4] = ([b1, b2], None)"
    unfolding batches_of_rows_def segments_of_two_of_five
    by (simp add: py_range_def slice b(1,3))
  then show ?thesis using b(2,4) by blast
qed

lemma converted_sample_row: "converted_sample (ids @ [int (length ids)])"
  by (simp add: converted_sample_def)

lemma five_lines_rows:
  assumes "length lns = 5"
    and "(case padding of
            PostPadding \<Rightarrow> PostPadding_call tok 2 lns
          | PrePadding \<Rightarrow> PrePadding_call v tok 2 lns) = Inr rows"
    and "pad_token v = Inr pad"
  shows "\<exists>r0 r1 r2 r3 r4. rows = [r0, r1, r2, r3, r4]
           \<and> (\<exists>b1. batch_values padding v [r0, r1] = Inr b1 \<and> length b1 = 2)
           \<and> (\<exists>b2. batch_values padding v [r2, r3] = Inr b2 \<and> length b2 = 2)"
proof -
  from assms(1) obtain l0 l1 l2 l3 l4 where lns: "lns = [l0, l1, l2, l3, l4]"
    by (auto simp: numeral_eq_Suc length_Suc_conv)
  show ?thesis
  proof (cases padding)
    case PostPadding
    let ?row = "\<lambda>line. tok line @ [int (length (tok line))]"
    have rows: "rows = [?row l0, ?row l1, ?row l2, ?row l3, ?row l4]"
      using assms(2)
      by (simp add: PostPadding lns PostPadding_call_def segments_of_two_of_five)
    have pair: "\<exists>b. PostPadding_batch v [?row x, ?row y] = Inr b \<and> length b = 2" for x y
      using PostPadding_batch_converted [of "[?row x, ?row y]" v pad] assms(3)
      by (auto simp: converted_sample_row)
    show ?thesis
      using pair [of l0 l1] pair [of l2 l3]
      by (simp add: rows PostPadding batch_values_def)
  next
    case PrePadding
    from assms(2) obtain chunks
      where chunks: "PrePadding_segments v tok [[l0, l1], [l2, l3], [l4]] = Inr chunks"
        and rows: "rows = concat chunks"
      by (auto simp: PrePadding lns PrePadding_call_def segments_of_two_of_five
          split: sum.splits)
    from PrePadding_segments_shape [OF chunks]
    obtain r0 r1 r2 r3 r4 where c: "chunks = [[r0, r1], [r2, r3], [r4]]"
      and len: "length r0 = length (tok l0) + 1" "length r1 = length (tok l0) + 1"
        "length r2 = length (tok l2) + 1" "length r3 = length (tok l2) + 1"
      by (auto simp: list_all2_Cons1)
    have pair: "\<exists>b. PrePadding_create_batch [x, y] = Inr b \<and> length b = 2"
      if "length x = n + 1" "length y = n + 1" for x y :: "int list" and n
    proof -
      have "[] \<notin> set [x, y]" using that by auto
      moreover have "\<forall>r \<in> set [x, y]. length r = n + 1" using that by simp
      ultimately have "PrePadding_create_batch [x, y] = Inr (sort_key (\<lambda>x. - last x) [x, y])"
        by (rule PrePadding_create_batch_sorted)
      then show ?thesis by simp
    qed
    show ?thesis
      using pair [OF len(1,2)] pair [OF len(3,4)]
      by (simp add: rows c PrePadding batch_values_def)
  qed
qed

text \<open>
  C9. A \<^verbatim>\<open>MemoryInput\<close> built with \<^verbatim>\<open>shuffle=False\<close> yields, at every call of
  \<^verbatim>\<open>batch_generator\<close>, after any number of earlier passes, the batches (and the
  exception, if one ends the pass) of its first call, and every pass leaves the stored
  converted rows as they were: the batches are padded on deep copies. Over a corpus of
  five lines with \<^verbatim>\<open>max_segment_size = 2\<close> and \<^verbatim>\<open>batch_size = 2\<close> every call
  yields exactly two batches of two samples; the fifth sample, alone in its segment, is
  dropped.
\<close>

theorem batch_generator_restartable:
  assumes "MemoryInput_init tok fs h0 max_segment_size batch_size False cuda data_path v padding
           = Inr (mi, h)"
  shows "yielded shuffle_fn mi ((store_after shuffle_fn mi ^^ k) h) = yielded shuffle_fn mi h
       \<and> map (\<lambda>a. (store_after shuffle_fn mi ^^ k) h ! a) (mi_data mi)
           = map (\<lambda>a. h ! a) (mi_data mi)
       \<and> (max_segment_size = 2 \<and> batch_size = 2
            \<and> (\<exists>lns. fs data_path = Some lns \<and> length lns = 5)
            \<and> (\<exists>pad. pad_token v = Inr pad) \<longrightarrow>
          (\<exists>b1 b2. yielded shuffle_fn mi ((store_after shuffle_fn mi ^^ k) h) = ([b1, b2], None)
              \<and> length b1 = 2 \<and> length b2 = 2))"
proof -
  note init = MemoryInput_init_data [OF assms]
  let ?hk = "(store_after shuffle_fn mi ^^ k) h"
  from passes_keep_data [OF init(3,1,2), where shuffle_fn = shuffle_fn and k = k]
  have same: "map (\<lambda>a. ?hk ! a) (mi_data mi) = map (\<lambda>a. h ! a) (mi_data mi)"
    and ok: "\<forall>a \<in> set (mi_data mi). a < length ?hk"
    by simp_all
  have yk: "yielded shuffle_fn mi ?hk
      = batches_of_rows padding v batch_size max_segment_size (map (\<lambda>a. h ! a) (mi_data mi))"
    using pass_keeps_data(1) [OF init(3,1) ok, where shuffle_fn = shuffle_fn]
    by (simp add: same init)
  have y0: "yielded shuffle_fn mi h
      = batches_of_rows padding v batch_size max_segment_size (map (\<lambda>a. h ! a) (mi_data mi))"
    using pass_keeps_data(1) [OF init(3,1,2), where shuffle_fn = shuffle_fn]
    by (simp add: init)
  have scenario: "\<exists>b1 b2. yielded shuffle_fn mi ?hk = ([b1, b2], None)
              \<and> length b1 = 2 \<and> length b2 = 2"
    if s: "max_segment_size = 2" "batch_size = 2" "fs data_path = Some lns" "length lns = 5"
      "pad_token v = Inr pad" for lns pad
  proof -
    from init(8) [unfolded s(1)] s(3,4) have conv: "(case padding of
            PostPadding \<Rightarrow> PostPadding_call tok 2 lns
          | PrePadding \<Rightarrow> PrePadding_call v tok 2 lns) = Inr (map (\<lambda>a. h ! a) (mi_data mi))"
      by (auto simp: Monolingual_load_data_def split: if_splits)
    from five_lines_rows [OF s(4) conv s(5)] obtain r0 r1 r2 r3 r4
      where rows: "map (\<lambda>a. h ! a) (mi_data mi) = [r0, r1, r2, r3, r4]"
        and b: "\<exists>b1. batch_values padding v [r0, r1] = Inr b1 \<and> length b1 = 2"
          "\<exists>b2. batch_values padding v [r2, r3] = Inr b2 \<and> length b2 = 2"
      by (elim exE conjE) (rule that, assumption, blast, blast)
    from two_batches_of_five_rows [OF b] show ?thesis
      by (simp add: yk rows s(1,2))
  qed
  show ?thesis
    using yk y0 same scenario by auto
qed

theorem batch_generator_restartable_witness:
  "\<exists>mi h. example_memory_input = Inr (mi, h)
     \<and> monolingual_fs ''mono.txt''
         = Some [''hello world'' @ [CHR 0x0A], ''hello'' @ [CHR 0x0A],
                 ''world hello hello'' @ [CHR 0x0A], ''world'' @ [CHR 0x0A],
                 ''hello hello'' @ [CHR 0x0A]]
     \<and> pad_token example_vocabulary = Inr 6
     \<and> yielded id mi h
         = ([[[0, 1, 2], [0, 6, 1]], [[1, 0, 0, 3], [1, 6, 6, 1]]], None)
     \<and> yielded id mi ((store_after id mi ^^ 2) h)
         = ([[[0, 1, 2], [0, 6, 1]], [[1, 0, 0, 3], [1, 6, 6, 1]]], None)
     \<and> map (\<lambda>a. (store_after id mi ^^ 2) h ! a) (mi_data mi)
         = [[0, 1, 2], [0, 1], [1, 0, 0, 3], [1, 1], [0, 0, 2]]"
proof -
  let ?mi = "\<lparr> mi_cuda = False, mi_shuffle = False, mi_batch_size = 2,
                mi_max_segment_size = 2, mi_padder = PostPadding,
                mi_vocabulary = example_vocabulary, mi_data = [0, 1, 2, 3, 4] \<rparr>"
  let ?h = "[[0, 1, 2], [0, 1], [1, 0, 0, 3], [1, 1], [0, 0, 2 :: int]]"
  have e: "MemoryInput_init (ids_from_sentence example_vocabulary) monolingual_fs [] 2 2 False
             False ''mono.txt'' example_vocabulary PostPadding = Inr (?mi, ?h)"
    by code_simp
  have f: "monolingual_fs ''mono.txt''
         = Some [''hello world'' @ [CHR 0x0A], ''hello'' @ [CHR 0x0A],
                 ''world hello hello'' @ [CHR 0x0A], ''world'' @ [CHR 0x0A],
                 ''hello hello'' @ [CHR 0x0A]]"
    by (simp add: monolingual_fs_def)
  have p: "pad_token example_vocabulary = Inr 6"
    by code_simp
  have y: "yielded id ?mi ?h = ([[[0, 1, 2], [0, 6, 1]], [[1, 0, 0, 3], [1, 6, 6, 1]]], None)"
    by code_simp
  have d: "map (\<lambda>a. ?h ! a) (mi_data ?mi) = ?h"
    by simp
  from batch_generator_restartable [OF e, where shuffle_fn = id and k = 2] show ?thesis
    using e f p y d by (simp add: example_memory_input_def)
qed


end
